theory Spec2Isabelle
  imports
    Complex_Main
    "HOL-Library.Word"
    "HOL-Library.Signed_Division"
    "HOL-Library.Char_ord"
    "HOL-Library.List_Lexorder"
begin

section \<open>Descriptors\<close>

text \<open>
  The descriptor classes are declared outside the translated sources; the generators only
  observe them through accessor calls. Every accessor a translated function calls is a
  selector below. A count accessor (\<open>extension_count()\<close>, \<open>dependency_count()\<close>) is the
  length of an array of the descriptor and is a natural number.
\<close>

text \<open>
  The enumerations of \<open>FieldDescriptor\<close> and of the wire format that the translated
  functions name or pass on.
\<close>

datatype Label = LABEL_OPTIONAL | LABEL_REQUIRED | LABEL_REPEATED

datatype FieldType =
    TYPE_DOUBLE | TYPE_FLOAT | TYPE_INT64 | TYPE_UINT64 | TYPE_INT32 | TYPE_FIXED64
  | TYPE_FIXED32 | TYPE_BOOL | TYPE_STRING | TYPE_GROUP | TYPE_MESSAGE | TYPE_BYTES
  | TYPE_UINT32 | TYPE_ENUM | TYPE_SFIXED32 | TYPE_SFIXED64 | TYPE_SINT32 | TYPE_SINT64

datatype JavaType =
    JAVATYPE_INT | JAVATYPE_LONG | JAVATYPE_FLOAT | JAVATYPE_DOUBLE | JAVATYPE_BOOLEAN
  | JAVATYPE_STRING | JAVATYPE_BYTES | JAVATYPE_ENUM | JAVATYPE_MESSAGE

datatype WireType =
    WIRETYPE_VARINT | WIRETYPE_FIXED64 | WIRETYPE_LENGTH_DELIMITED | WIRETYPE_START_GROUP
  | WIRETYPE_END_GROUP | WIRETYPE_FIXED32

text \<open>
  \<open>FieldDescriptor\<close>: \<open>name()\<close>, \<open>number()\<close>, \<open>type()\<close>, \<open>label()\<close>, \<open>is_packable()\<close>,
  \<open>options().packed()\<close> and \<open>message_type()\<close>. The message type of a field is a pointer
  to a descriptor that may lie anywhere in the schema, the field's own message included; it
  is the full name of that message, and \<open>None\<close> is \<open>nullptr\<close>.
\<close>

record FieldDescriptor =
  field_name :: string
  number :: int
  type :: FieldType
  label :: Label
  is_packable :: bool
  options_packed :: bool
  message_type :: "string option"

text \<open>
  Modelled from the spec: \<open>FieldDescriptor::is_required()\<close>, whose body is in
  \<open>descriptor.h\<close>, outside the translated sources. The spec's field carries
  \<open>required: bool\<close> and speaks of required and optional fields by their label.
\<close>

definition is_required :: "FieldDescriptor \<Rightarrow> bool" where
  "is_required field \<longleftrightarrow> label field = LABEL_REQUIRED"

text \<open>\<open>OneofDescriptor\<close>: its name and its members \<open>field(j)\<close>, \<open>j < field_count()\<close>.\<close>

record OneofDescriptor =
  oneof_name :: string
  oneof_fields :: "FieldDescriptor list"

text \<open>
  \<open>Descriptor\<close>: the fields \<open>field(i)\<close>, \<open>i < field_count()\<close>, in declaration order as
  \<open>field_list\<close>, \<open>extension_count()\<close>,
  \<open>extension_range_count()\<close> and the nested message types \<open>nested_type(i)\<close>.
\<close>

datatype Descriptor =
  Descriptor
    (full_name: string)
    (field_list: "FieldDescriptor list")
    (extension_count: nat)
    (extension_range_count: nat)
    (nested_type: "Descriptor list")

text \<open>
  \<open>FileDescriptor\<close>: \<open>name()\<close>, the imports \<open>dependency(i)\<close>, the file-level
  \<open>extension_count()\<close> and the top-level messages \<open>message_type(i)\<close>. A
  \<open>const FileDescriptor*\<close> of an acyclic import graph is the value itself: two pointers are
  equal exactly when they denote the same file, and the files a file imports are its
  \<open>dependency\<close> components, so that no import cycle can be written down.
\<close>

datatype FileDescriptor =
  FileDescriptor
    (name: string)
    (dependency: "FileDescriptor list")
    (file_extension_count: nat)
    (file_message_type: "Descriptor list")

definition dependency_count :: "FileDescriptor \<Rightarrow> nat" where
  "dependency_count file = length (dependency file)"

section \<open>objectivec/file.cc: which files contain extensions\<close>

text \<open>
  \<open>MessageContainsExtensions\<close>: true at once when the message declares an extension,
  otherwise the loop over the nested types returns true at the first nested type for which
  the recursive call does, and false after the loop.
\<close>

fun MessageContainsExtensions :: "Descriptor \<Rightarrow> bool" where
  "MessageContainsExtensions (Descriptor n fs ext_count range_count nested) =
     (if ext_count > 0 then True
      else list_ex MessageContainsExtensions nested)"

definition FileContainsExtensions :: "FileDescriptor \<Rightarrow> bool" where
  "FileContainsExtensions file =
     (if file_extension_count file > 0 then True
      else list_ex MessageContainsExtensions (file_message_type file))"

text \<open>
  The same property in the words of the specification: a message lies in a file at some
  nesting depth when it is a top-level message of the file or a nested type of a message
  that lies in the file.
\<close>

inductive nested_in_message :: "Descriptor \<Rightarrow> Descriptor \<Rightarrow> bool" where
  self: "nested_in_message m m"
| deeper: "k \<in> set (nested_type m) \<Longrightarrow> nested_in_message x k \<Longrightarrow> nested_in_message x m"

definition declares_extension_somewhere :: "FileDescriptor \<Rightarrow> bool" where
  "declares_extension_somewhere file \<longleftrightarrow>
     file_extension_count file > 0 \<or>
     (\<exists>top \<in> set (file_message_type file). \<exists>m. nested_in_message m top \<and> extension_count m > 0)"

section \<open>objectivec/file.cc: the minimal dependencies that contain extensions\<close>

record MinDepsEntry =
  has_extensions :: bool
  min_deps :: "FileDescriptor set"
  covered_deps :: "FileDescriptor set"

text \<open>\<open>deps_info_cache\<close>, the memo table of \<open>CommonState\<close>: empty when the state is made.\<close>

type_synonym deps_info_cache = "FileDescriptor \<rightharpoonup> MinDepsEntry"

text \<open>
  The three local hash sets of the function, in the order of their declaration:
  \<open>min_deps_collector\<close>, \<open>covered_deps_collector\<close>, \<open>to_prune\<close>.
\<close>

type_synonym collectors = "FileDescriptor set \<times> FileDescriptor set \<times> FileDescriptor set"

text \<open>The body of the loop over the dependencies, after the recursive call has returned.\<close>

definition absorb_dep :: "FileDescriptor \<Rightarrow> MinDepsEntry \<Rightarrow> collectors \<Rightarrow> collectors" where
  "absorb_dep dep dep_info acc =
     (case acc of (min_deps_collector, covered_deps_collector, to_prune) \<Rightarrow>
        let covered1 = covered_deps_collector \<union> covered_deps dep_info;
            prune1 = to_prune \<union> covered_deps dep_info
        in if has_extensions dep_info
           then (insert dep min_deps_collector,
                 covered1 \<union> min_deps dep_info,
                 prune1 \<union> min_deps dep_info)
           else (min_deps_collector \<union> min_deps dep_info, covered1, prune1))"

text \<open>
  What follows the loop: the fast path keeps the collected minimal set when there is nothing
  to prune or the file has exactly one dependency; otherwise \<open>copy_if\<close> keeps the members
  that are not in \<open>to_prune\<close>.
\<close>

definition finish_entry :: "FileDescriptor \<Rightarrow> collectors \<Rightarrow> MinDepsEntry" where
  "finish_entry file acc =
     (case acc of (min_deps_collector, covered_deps_collector, to_prune) \<Rightarrow>
        let file_has_exts = FileContainsExtensions file
        in if to_prune = {} \<or> dependency_count file = 1
           then \<lparr>has_extensions = file_has_exts,
                 min_deps = min_deps_collector,
                 covered_deps = covered_deps_collector\<rparr>
           else \<lparr>has_extensions = file_has_exts,
                 min_deps = Set.filter (\<lambda>v. v \<notin> to_prune) min_deps_collector,
                 covered_deps = covered_deps_collector\<rparr>)"

text \<open>
  \<open>deps_info_cache.insert({file, entry}).first->second\<close>: \<open>insert\<close> leaves an existing
  mapping alone, and the function returns the entry the table holds afterwards.
\<close>

definition cache_insert ::
  "FileDescriptor \<Rightarrow> MinDepsEntry \<Rightarrow> deps_info_cache \<Rightarrow> MinDepsEntry \<times> deps_info_cache" where
  "cache_insert file entry cache =
     (case cache file of
        Some present \<Rightarrow> (present, cache)
      | None \<Rightarrow> (entry, cache(file \<mapsto> entry)))"

text \<open>
  \<open>CollectMinimalFileDepsContainingExtensionsInternal\<close>, with the memo table passed in and
  returned. The loop over \<open>dependency(i)\<close> is the \<open>fold\<close>; its state is the three
  collectors and the table.
\<close>

fun CollectMinimalFileDepsContainingExtensionsInternal ::
  "FileDescriptor \<Rightarrow> deps_info_cache \<Rightarrow> MinDepsEntry \<times> deps_info_cache" where
  "CollectMinimalFileDepsContainingExtensionsInternal (FileDescriptor n deps ec mts) cache =
     (case cache (FileDescriptor n deps ec mts) of
        Some it \<Rightarrow> (it, cache)
      | None \<Rightarrow>
          (case fold (\<lambda>dep (acc, c).
                        case CollectMinimalFileDepsContainingExtensionsInternal dep c of
                          (dep_info, c') \<Rightarrow> (absorb_dep dep dep_info acc, c'))
                     deps (({}, {}, {}), cache) of
             (acc, cache1) \<Rightarrow>
               cache_insert (FileDescriptor n deps ec mts)
                 (finish_entry (FileDescriptor n deps ec mts) acc) cache1))"

text \<open>
  The tables a \<open>CommonState\<close> can hold: the empty one it starts with, and the one left by
  any call on a table it could hold.
\<close>

inductive reachable_cache :: "deps_info_cache \<Rightarrow> bool" where
  fresh: "reachable_cache Map.empty"
| after_call:
    "reachable_cache cache \<Longrightarrow>
     reachable_cache (snd (CollectMinimalFileDepsContainingExtensionsInternal file cache))"

text \<open>
  \<open>FileDescriptorsOrderedByName\<close>: \<open>a->name() < b->name()\<close> on \<open>std::string\<close>, the
  lexicographic order of the bytes.
\<close>

definition FileDescriptorsOrderedByName :: "FileDescriptor \<Rightarrow> FileDescriptor \<Rightarrow> bool" where
  "FileDescriptorsOrderedByName a b \<longleftrightarrow> name a < name b"

text \<open>
  \<open>std::sort\<close> with a comparator, as insertion from the right: an element goes before the
  first element that the comparator does not put before it.
\<close>

fun insert_sorted :: "('a \<Rightarrow> 'a \<Rightarrow> bool) \<Rightarrow> 'a \<Rightarrow> 'a list \<Rightarrow> 'a list" where
  "insert_sorted cmp x [] = [x]"
| "insert_sorted cmp x (y # ys) =
     (if cmp y x then y # insert_sorted cmp x ys else x # y # ys)"

definition std_sort :: "('a \<Rightarrow> 'a \<Rightarrow> bool) \<Rightarrow> 'a list \<Rightarrow> 'a list" where
  "std_sort cmp xs = foldr (insert_sorted cmp) xs []"

text \<open>
  \<open>CollectMinimalFileDepsContainingExtensions\<close>. The vector is filled by iterating over a
  \<open>flat_hash_set\<close> of pointers, whose order is not fixed: \<open>iteration\<close> is the order in which
  this run happens to enumerate a set.
\<close>

definition CollectMinimalFileDepsContainingExtensions ::
  "(FileDescriptor set \<Rightarrow> FileDescriptor list) \<Rightarrow> FileDescriptor \<Rightarrow> deps_info_cache \<Rightarrow>
     FileDescriptor list \<times> deps_info_cache" where
  "CollectMinimalFileDepsContainingExtensions iteration file cache =
     (case CollectMinimalFileDepsContainingExtensionsInternal file cache of
        (entry, cache') \<Rightarrow>
          (std_sort FileDescriptorsOrderedByName (iteration (min_deps entry)), cache'))"

text \<open>An enumeration of a hash set lists every member once and nothing else.\<close>

definition enumerates :: "(FileDescriptor set \<Rightarrow> FileDescriptor list) \<Rightarrow> FileDescriptor set \<Rightarrow> bool" where
  "enumerates iteration S \<longleftrightarrow> set (iteration S) = S \<and> distinct (iteration S)"

text \<open>
  The minimal set the function computes for a file on a fresh table, and the chain relation
  it induces: \<open>(x, y)\<close> is a link when \<open>y\<close> is in the minimal set of \<open>x\<close>.
\<close>

definition min_deps_of :: "FileDescriptor \<Rightarrow> FileDescriptor set" where
  "min_deps_of x = min_deps (fst (CollectMinimalFileDepsContainingExtensionsInternal x Map.empty))"

definition min_dep_chain :: "(FileDescriptor \<times> FileDescriptor) set" where
  "min_dep_chain = {(x, y). y \<in> min_deps_of x}"

subsection \<open>The entry of a file without the memo table\<close>

text \<open>
  What the function returns when every recursive call recomputes its result: the same loop
  body and the same ending, with no table. It is the value the table is shown to hold.
\<close>

fun closure_entry :: "FileDescriptor \<Rightarrow> MinDepsEntry" where
  "closure_entry (FileDescriptor n deps ec mts) =
     finish_entry (FileDescriptor n deps ec mts)
       (fold (\<lambda>dep acc. absorb_dep dep (closure_entry dep) acc) deps ({}, {}, {}))"

declare closure_entry.simps [simp del]

definition cache_ok :: "deps_info_cache \<Rightarrow> bool" where
  "cache_ok cache \<longleftrightarrow> (\<forall>fd entry. cache fd = Some entry \<longrightarrow> entry = closure_entry fd)"

definition memo_ok :: "FileDescriptor \<Rightarrow> bool" where
  "memo_ok fd \<longleftrightarrow>
     (\<forall>cache. cache_ok cache \<longrightarrow>
        (case CollectMinimalFileDepsContainingExtensionsInternal fd cache of
           (entry, cache') \<Rightarrow>
             entry = closure_entry fd \<and> cache_ok cache' \<and> cache' fd = Some entry))"

text \<open>What one dependency adds to the minimal collector and to the covered collector.\<close>

definition min_part :: "FileDescriptor \<Rightarrow> FileDescriptor set" where
  "min_part d = (if has_extensions (closure_entry d) then {d} else min_deps (closure_entry d))"

definition cov_part :: "FileDescriptor \<Rightarrow> FileDescriptor set" where
  "cov_part d = covered_deps (closure_entry d) \<union>
     (if has_extensions (closure_entry d) then min_deps (closure_entry d) else {})"

section \<open>java/message_builder.cc\<close>

text \<open>
  The builder generator prints Java source. Each translated function takes the lines printed
  so far and returns them with its own lines appended, one constructor per template that the
  function prints. Functions of the repository that the generator calls and whose bodies are
  outside the translated sources (\<open>IsRealOneof\<close>, \<open>GetJavaType\<close>, \<open>HasRequiredFields\<close>,
  \<open>IsMapEntry\<close>, \<open>WireFormatLite::MakeTag\<close>, \<open>WireFormat::WireTypeForFieldType\<close>,
  \<open>Context::HasGeneratedMethods\<close>, and the \<open>GetNumBitsForBuilder\<close> and
  \<open>GetNumBitsForMessage\<close> of the field generators) are parameters of the function that
  calls them, under their own names.
\<close>

text \<open>
  The members of \<open>MessageBuilderGenerator\<close> that the translated functions read.
  \<open>descriptor\<close> is the member \<open>descriptor_\<close> and \<open>oneofs\<close> the member \<open>oneofs_\<close>,
  a set of pointers: the list is the order in which the loops of this run visit it.
\<close>

record MessageBuilderGenerator =
  descriptor :: Descriptor
  oneofs :: "OneofDescriptor list"

subsection \<open>The integers for the bit fields\<close>

text \<open>
  \<open>BuilderBitField i\<close> is \<open>private int $bit_field_name$;\<close>, \<open>FromBitField i\<close> is
  \<open>int from_$bit_field_name$ = $bit_field_name$;\<close> and \<open>ToBitField i\<close> is
  \<open>int to_$bit_field_name$ = 0;\<close>, each with \<open>GetBitFieldName(i)\<close> for the name.
\<close>

datatype BitFieldLine = BuilderBitField int | FromBitField int | ToBitField int

text \<open>
  The end of \<open>Generate\<close>: the loop that adds up \<open>GetNumBitsForBuilder()\<close>, the division
  of C++ on \<open>int\<close> (it truncates towards zero), and the loop \<open>for (i = 0; i < totalInts; i++)\<close>.
  The sums of a real message stay far below \<open>2^31\<close> (a generator asks for at most one
  bit, and a message has fewer than \<open>2^29\<close> fields); \<open>int\<close> is the unbounded integer here,
  and what is proved about these lines is proved for totals in the range of the 32-bit \<open>int\<close>.
\<close>

definition Generate_bit_fields ::
  "(FieldDescriptor \<Rightarrow> int) \<Rightarrow> Descriptor \<Rightarrow> BitFieldLine list \<Rightarrow> BitFieldLine list" where
  "Generate_bit_fields GetNumBitsForBuilder d printer =
     (let totalBits = fold (\<lambda>field total. total + GetNumBitsForBuilder field) (field_list d) 0;
          totalInts = (totalBits + 31) sdiv 32
      in fold (\<lambda>i p. p @ [BuilderBitField i]) [0..totalInts - 1] printer)"

text \<open>The same in \<open>buildPartial\<close>, as \<open>GenerateCommonBuilderMethods\<close> prints it.\<close>

definition GenerateCommonBuilderMethods_bit_fields ::
  "(FieldDescriptor \<Rightarrow> int) \<Rightarrow> (FieldDescriptor \<Rightarrow> int) \<Rightarrow> Descriptor \<Rightarrow>
     BitFieldLine list \<Rightarrow> BitFieldLine list" where
  "GenerateCommonBuilderMethods_bit_fields GetNumBitsForBuilder GetNumBitsForMessage d printer =
     (case fold (\<lambda>field (totalBuilderBits, totalMessageBits).
                   (totalBuilderBits + GetNumBitsForBuilder field,
                    totalMessageBits + GetNumBitsForMessage field))
                (field_list d) (0, 0) of
        (totalBuilderBits, totalMessageBits) \<Rightarrow>
          let totalBuilderInts = (totalBuilderBits + 31) sdiv 32;
              totalMessageInts = (totalMessageBits + 31) sdiv 32;
              printer1 = fold (\<lambda>i p. p @ [FromBitField i]) [0..totalBuilderInts - 1] printer
          in fold (\<lambda>i p. p @ [ToBitField i]) [0..totalMessageInts - 1] printer1)"

subsection \<open>\<open>mergeFrom(other)\<close>\<close>

text \<open>
  The statements of the printed \<open>mergeFrom($classname$ other)\<close>:
  \<^item> \<open>ReturnThisIfDefaultInstance\<close>: \<open>if (other == $classname$.getDefaultInstance()) return this;\<close>
  \<^item> \<open>MergingCode f\<close>: what \<open>field_generators_.get(f).GenerateMergingCode\<close> prints;
  \<^item> \<open>SwitchOneofCase o fs\<close>: \<open>switch (other.get...Case())\<close> with one
    \<open>case F: { <merging code of F> break; }\<close> for each \<open>F\<close> of \<open>fs\<close>, in that order, and
    the final \<open>case ..._NOT_SET: { break; }\<close>;
  \<^item> \<open>MergeExtensionFields\<close>: \<open>this.mergeExtensionFields(other);\<close>
  \<^item> \<open>MergeUnknownFields\<close>: \<open>this.mergeUnknownFields(other.getUnknownFields());\<close>
  \<^item> \<open>OnChanged\<close>: \<open>onChanged();\<close> and \<open>ReturnThis\<close>: \<open>return this;\<close>
\<close>

datatype MergeStmt =
    ReturnThisIfDefaultInstance
  | MergingCode FieldDescriptor
  | SwitchOneofCase OneofDescriptor "FieldDescriptor list"
  | MergeExtensionFields
  | MergeUnknownFields
  | OnChanged
  | ReturnThis

text \<open>The inner loop over \<open>oneof->field(j)\<close>: the cases of one \<open>switch\<close>, in order.\<close>

definition oneof_cases :: "OneofDescriptor \<Rightarrow> FieldDescriptor list" where
  "oneof_cases oneof = fold (\<lambda>field cases. cases @ [field]) (oneof_fields oneof) []"

text \<open>
  The part of \<open>GenerateCommonBuilderMethods\<close> under
  \<open>if (context_->HasGeneratedMethods(descriptor_))\<close>, from the fast path on; nothing is
  printed when the test fails.
\<close>

definition GenerateCommonBuilderMethods_mergeFrom ::
  "(Descriptor \<Rightarrow> bool) \<Rightarrow> (FieldDescriptor \<Rightarrow> bool) \<Rightarrow> MessageBuilderGenerator \<Rightarrow>
     MergeStmt list \<Rightarrow> MergeStmt list" where
  "GenerateCommonBuilderMethods_mergeFrom HasGeneratedMethods IsRealOneof g printer =
     (if HasGeneratedMethods (descriptor g) then
        let p1 = printer @ [ReturnThisIfDefaultInstance];
            p2 = fold (\<lambda>field p. if \<not> IsRealOneof field then p @ [MergingCode field] else p)
                   (field_list (descriptor g)) p1;
            p3 = fold (\<lambda>oneof p. p @ [SwitchOneofCase oneof (oneof_cases oneof)]) (oneofs g) p2;
            p4 = (if extension_range_count (descriptor g) > 0
                  then p3 @ [MergeExtensionFields] else p3);
            p5 = p4 @ [MergeUnknownFields];
            p6 = p5 @ [OnChanged]
        in p6 @ [ReturnThis]
      else printer)"




subsection \<open>\<open>mergeFrom(input, extensionRegistry)\<close>\<close>

text \<open>
  The arms of the printed \<open>switch (tag)\<close>. A case label is printed as the tag cast to
  \<open>int32_t\<close> and compared with the \<open>int\<close> that \<open>readTag()\<close> returns: the same 32 bits.
  \<^item> \<open>CaseDone t\<close>: \<open>case t: done = true; break;\<close>
  \<^item> \<open>CaseField t a\<close>: \<open>case t: { <a> break; }\<close>, where \<open>a\<close> is what
    \<open>GenerateBuilderParsingCode\<close> or \<open>GenerateBuilderParsingCodeFromPacked\<close> of the
    field's generator prints;
  \<^item> \<open>DefaultUnknownField\<close>:
    \<open>default: { if (!super.parseUnknownField(input, extensionRegistry, tag)) { done = true; } break; }\<close>
\<close>

datatype ParseAction =
    BuilderParsingCode FieldDescriptor
  | BuilderParsingCodeFromPacked FieldDescriptor

datatype SwitchArm =
    CaseDone "32 word"
  | CaseField "32 word" ParseAction
  | DefaultUnknownField

text \<open>
  Modelled from the spec: \<open>SortFieldsByNumber\<close>, whose body is in \<open>java/helpers.cc\<close>,
  outside the translated sources. The spec has the dispatch table built in ascending order of
  the wire number of the fields.
\<close>

definition SortFieldsByNumber :: "Descriptor \<Rightarrow> FieldDescriptor list" where
  "SortFieldsByNumber d = sort_key number (field_list d)"

definition GenerateBuilderFieldParsingCase ::
  "(int \<Rightarrow> WireType \<Rightarrow> 32 word) \<Rightarrow> (FieldType \<Rightarrow> WireType) \<Rightarrow> FieldDescriptor \<Rightarrow>
     SwitchArm list \<Rightarrow> SwitchArm list" where
  "GenerateBuilderFieldParsingCase MakeTag WireTypeForFieldType field printer =
     (let tag = MakeTag (number field) (WireTypeForFieldType (type field))
      in printer @ [CaseField tag (BuilderParsingCode field)])"

definition GenerateBuilderPackedFieldParsingCase ::
  "(int \<Rightarrow> WireType \<Rightarrow> 32 word) \<Rightarrow> FieldDescriptor \<Rightarrow> SwitchArm list \<Rightarrow> SwitchArm list" where
  "GenerateBuilderPackedFieldParsingCase MakeTag field printer =
     (let tag = MakeTag (number field) WIRETYPE_LENGTH_DELIMITED
      in printer @ [CaseField tag (BuilderParsingCodeFromPacked field)])"

definition GenerateBuilderFieldParsingCases ::
  "(int \<Rightarrow> WireType \<Rightarrow> 32 word) \<Rightarrow> (FieldType \<Rightarrow> WireType) \<Rightarrow> Descriptor \<Rightarrow>
     SwitchArm list \<Rightarrow> SwitchArm list" where
  "GenerateBuilderFieldParsingCases MakeTag WireTypeForFieldType d printer =
     fold (\<lambda>field p.
             let p1 = GenerateBuilderFieldParsingCase MakeTag WireTypeForFieldType field p
             in if is_packable field
                then GenerateBuilderPackedFieldParsingCase MakeTag field p1
                else p1)
          (SortFieldsByNumber d) printer"

text \<open>\<open>GenerateBuilderParsingMethods\<close>: the arms of the \<open>switch\<close> it prints, in order.\<close>

definition GenerateBuilderParsingMethods ::
  "(int \<Rightarrow> WireType \<Rightarrow> 32 word) \<Rightarrow> (FieldType \<Rightarrow> WireType) \<Rightarrow> Descriptor \<Rightarrow>
     SwitchArm list \<Rightarrow> SwitchArm list" where
  "GenerateBuilderParsingMethods MakeTag WireTypeForFieldType d printer =
     (let p1 = printer @ [CaseDone 0];
          p2 = GenerateBuilderFieldParsingCases MakeTag WireTypeForFieldType d p1
      in p2 @ [DefaultUnknownField])"

text \<open>The field an arm parses, and the arms of a table that parse a given field.\<close>

fun arm_field :: "SwitchArm \<Rightarrow> FieldDescriptor option" where
  "arm_field (CaseField t (BuilderParsingCode field)) = Some field"
| "arm_field (CaseField t (BuilderParsingCodeFromPacked field)) = Some field"
| "arm_field (CaseDone t) = None"
| "arm_field DefaultUnknownField = None"

definition entries_for :: "FieldDescriptor \<Rightarrow> SwitchArm list \<Rightarrow> SwitchArm list" where
  "entries_for field arms = filter (\<lambda>arm. arm_field arm = Some field) arms"

text \<open>
  What the printed method does when it runs. \<open>'s\<close> is the state of the input stream and of
  the builder together. A call of the runtime returns normally (\<open>Inr\<close>) or throws
  (\<open>Inl\<close>, with the state it leaves).
\<close>

datatype JavaException = NullPointerException | InvalidProtocolBufferException | IOException

record 's ParseRuntime =
  readTag :: "'s \<Rightarrow> (JavaException \<times> 's) + (32 word \<times> 's)"
  runParseAction :: "ParseAction \<Rightarrow> 's \<Rightarrow> (JavaException \<times> 's) + 's"
  parseUnknownField :: "32 word \<Rightarrow> 's \<Rightarrow> (JavaException \<times> 's) + (bool \<times> 's)"
  parse_onChanged :: "'s \<Rightarrow> 's"

text \<open>
  The arm a \<open>switch\<close> jumps to: the case whose label is the tag, and the \<open>default\<close> arm when
  no label is.
\<close>

fun arm_label :: "SwitchArm \<Rightarrow> 32 word option" where
  "arm_label (CaseDone t) = Some t"
| "arm_label (CaseField t a) = Some t"
| "arm_label DefaultUnknownField = None"

definition select_arm :: "SwitchArm list \<Rightarrow> 32 word \<Rightarrow> SwitchArm option" where
  "select_arm arms tag =
     (case find (\<lambda>arm. arm_label arm = Some tag) arms of
        Some arm \<Rightarrow> Some arm
      | None \<Rightarrow> find (\<lambda>arm. arm = DefaultUnknownField) arms)"

text \<open>One arm: the new value of \<open>done\<close> (it is false when the \<open>switch\<close> is entered) and the state.\<close>

fun run_arm ::
  "'s ParseRuntime \<Rightarrow> SwitchArm option \<Rightarrow> 32 word \<Rightarrow> 's \<Rightarrow> (JavaException \<times> 's) + (bool \<times> 's)" where
  "run_arm rt None tag s = Inr (False, s)"
| "run_arm rt (Some (CaseDone t)) tag s = Inr (True, s)"
| "run_arm rt (Some (CaseField t a)) tag s =
     (case runParseAction rt a s of Inl thrown \<Rightarrow> Inl thrown | Inr s' \<Rightarrow> Inr (False, s'))"
| "run_arm rt (Some DefaultUnknownField) tag s =
     (case parseUnknownField rt tag s of
        Inl thrown \<Rightarrow> Inl thrown
      | Inr (continue, s') \<Rightarrow> Inr (\<not> continue, s'))"

text \<open>
  \<open>while (!done) { int tag = input.readTag(); switch (tag) { ... } }\<close>, with a bound on
  the number of iterations: \<open>None\<close> when the bound is reached before the loop ends.
\<close>

fun run_parse_loop ::
  "nat \<Rightarrow> 's ParseRuntime \<Rightarrow> SwitchArm list \<Rightarrow> 's \<Rightarrow> ((JavaException \<times> 's) + 's) option" where
  "run_parse_loop 0 rt arms s = None"
| "run_parse_loop (Suc fuel) rt arms s =
     (case readTag rt s of
        Inl thrown \<Rightarrow> Some (Inl thrown)
      | Inr (tag, s1) \<Rightarrow>
          (case run_arm rt (select_arm arms tag) tag s1 of
             Inl thrown \<Rightarrow> Some (Inl thrown)
           | Inr (done, s2) \<Rightarrow>
               if done then Some (Inr s2) else run_parse_loop fuel rt arms s2))"

text \<open>
  The whole method: the test of \<open>extensionRegistry\<close>, the loop inside \<open>try\<close>, the \<open>catch\<close>
  that rethrows \<open>e.unwrapIOException()\<close>, and \<open>onChanged()\<close> in \<open>finally\<close>.
\<close>

definition run_mergeFrom_input ::
  "nat \<Rightarrow> 's ParseRuntime \<Rightarrow> SwitchArm list \<Rightarrow> bool \<Rightarrow> 's \<Rightarrow> ((JavaException \<times> 's) + 's) option" where
  "run_mergeFrom_input fuel rt arms registry_is_null s =
     (if registry_is_null then Some (Inl (NullPointerException, s))
      else
        (case run_parse_loop fuel rt arms s of
           None \<Rightarrow> None
         | Some (Inl (e, s')) \<Rightarrow>
             Some (Inl (if e = InvalidProtocolBufferException then IOException else e,
                        parse_onChanged rt s'))
         | Some (Inr s') \<Rightarrow> Some (Inr (parse_onChanged rt s'))))"

subsection \<open>\<open>isInitialized()\<close>\<close>

text \<open>
  The checks of the printed \<open>isInitialized()\<close>, each returning false when it fails; the
  method ends with \<open>return true;\<close>.
  \<^item> \<open>HasField f\<close>: \<open>if (!has$name$()) { return false; }\<close>
  \<^item> \<open>RequiredMessageInitialized f\<close>: \<open>if (!get$name$().isInitialized()) { return false; }\<close>
  \<^item> \<open>OptionalMessageInitialized f\<close>: the same under \<open>if (has$name$())\<close>;
  \<^item> \<open>MapValuesInitialized f\<close>: the loop over \<open>get$name$Map().values()\<close>;
  \<^item> \<open>RepeatedMessagesInitialized f\<close>: the loop over \<open>get$name$(i)\<close>;
  \<^item> \<open>ExtensionsAreInitialized\<close>: \<open>if (!extensionsAreInitialized()) { return false; }\<close>
\<close>

datatype InitCheck =
    HasField FieldDescriptor
  | RequiredMessageInitialized FieldDescriptor
  | OptionalMessageInitialized FieldDescriptor
  | MapValuesInitialized FieldDescriptor
  | RepeatedMessagesInitialized FieldDescriptor
  | ExtensionsAreInitialized

definition GenerateIsInitialized ::
  "(FieldDescriptor \<Rightarrow> JavaType) \<Rightarrow> (string option \<Rightarrow> bool) \<Rightarrow> (string option \<Rightarrow> bool) \<Rightarrow>
     Descriptor \<Rightarrow> InitCheck list \<Rightarrow> InitCheck list" where
  "GenerateIsInitialized GetJavaType HasRequiredFields IsMapEntry d printer =
     (let p1 = fold (\<lambda>field p. if is_required field then p @ [HasField field] else p)
                 (field_list d) printer;
          p2 = fold (\<lambda>field p.
                       if GetJavaType field = JAVATYPE_MESSAGE \<and>
                          HasRequiredFields (message_type field)
                       then (case label field of
                               LABEL_REQUIRED \<Rightarrow> p @ [RequiredMessageInitialized field]
                             | LABEL_OPTIONAL \<Rightarrow> p @ [OptionalMessageInitialized field]
                             | LABEL_REPEATED \<Rightarrow>
                                 if IsMapEntry (message_type field)
                                 then p @ [MapValuesInitialized field]
                                 else p @ [RepeatedMessagesInitialized field])
                       else p)
                 (field_list d) p1
      in if extension_range_count d > 0 then p2 @ [ExtensionsAreInitialized] else p2)"

text \<open>The checks that descend into the message a field holds.\<close>

definition recursion_checks :: "FieldDescriptor \<Rightarrow> InitCheck set" where
  "recursion_checks field =
     {RequiredMessageInitialized field, OptionalMessageInitialized field,
      MapValuesInitialized field, RepeatedMessagesInitialized field}"

subsection \<open>The lines one field contributes\<close>

text \<open>The arms that \<open>GenerateBuilderFieldParsingCases\<close> prints for one field.\<close>

definition arms_of ::
  "(int \<Rightarrow> WireType \<Rightarrow> 32 word) \<Rightarrow> (FieldType \<Rightarrow> WireType) \<Rightarrow> FieldDescriptor \<Rightarrow> SwitchArm list" where
  "arms_of MakeTag WireTypeForFieldType f =
     CaseField (MakeTag (number f) (WireTypeForFieldType (type f))) (BuilderParsingCode f) #
     (if is_packable f
      then [CaseField (MakeTag (number f) WIRETYPE_LENGTH_DELIMITED) (BuilderParsingCodeFromPacked f)]
      else [])"

text \<open>The checks that the second loop of \<open>GenerateIsInitialized\<close> prints for one field.\<close>

definition init_checks_of ::
  "(FieldDescriptor \<Rightarrow> JavaType) \<Rightarrow> (string option \<Rightarrow> bool) \<Rightarrow> (string option \<Rightarrow> bool) \<Rightarrow>
     FieldDescriptor \<Rightarrow> InitCheck list" where
  "init_checks_of GetJavaType HasRequiredFields IsMapEntry f =
     (if GetJavaType f = JAVATYPE_MESSAGE \<and> HasRequiredFields (message_type f)
      then (case label f of
              LABEL_REQUIRED \<Rightarrow> [RequiredMessageInitialized f]
            | LABEL_OPTIONAL \<Rightarrow> [OptionalMessageInitialized f]
            | LABEL_REPEATED \<Rightarrow>
                if IsMapEntry (message_type f) then [MapValuesInitialized f]
                else [RepeatedMessagesInitialized f])
      else [])"

subsection \<open>A sample message and a sample runtime\<close>

text \<open>
  Inputs on which the generators and the printed methods are evaluated: the message
  \<open>{repeated int32 tags = 3; required int32 id = 1; optional Msg child = 2}\<close>; the tag and
  the wire types of the protobuf wire format (the field number shifted left by three bits,
  with the wire type in the low bits); an input stream that is the list of the tags still to
  be read, with a handler of unknown fields that stops at the end-group tag 12; and a builder
  that logs the number of each field it merges and a 0 for \<open>onChanged()\<close>, over three
  messages: 0 is the default instance, 1 is another message with nothing set, and 2 has
  every field set.
\<close>

abbreviation sample_id :: FieldDescriptor where
  "sample_id \<equiv>
     \<lparr>field_name = ''id'', number = 1, type = TYPE_INT32, label = LABEL_REQUIRED,
      is_packable = False, options_packed = False, message_type = None\<rparr>"

abbreviation sample_child :: FieldDescriptor where
  "sample_child \<equiv>
     \<lparr>field_name = ''child'', number = 2, type = TYPE_MESSAGE, label = LABEL_OPTIONAL,
      is_packable = False, options_packed = False, message_type = Some ''Msg''\<rparr>"

abbreviation sample_tags :: FieldDescriptor where
  "sample_tags \<equiv>
     \<lparr>field_name = ''tags'', number = 3, type = TYPE_INT32, label = LABEL_REPEATED,
      is_packable = True, options_packed = False, message_type = None\<rparr>"

abbreviation sample_message :: Descriptor where
  "sample_message \<equiv> Descriptor ''M'' [sample_tags, sample_id, sample_child] 0 0 []"

abbreviation sample_MakeTag :: "int \<Rightarrow> WireType \<Rightarrow> 32 word" where
  "sample_MakeTag \<equiv> \<lambda>n w. word_of_int (8 * n) +
     (case w of WIRETYPE_VARINT \<Rightarrow> 0 | WIRETYPE_FIXED64 \<Rightarrow> 1 | WIRETYPE_LENGTH_DELIMITED \<Rightarrow> 2
      | WIRETYPE_START_GROUP \<Rightarrow> 3 | WIRETYPE_END_GROUP \<Rightarrow> 4 | WIRETYPE_FIXED32 \<Rightarrow> 5)"

abbreviation sample_WireTypeForFieldType :: "FieldType \<Rightarrow> WireType" where
  "sample_WireTypeForFieldType \<equiv> \<lambda>t.
     if t \<in> {TYPE_DOUBLE, TYPE_FIXED64, TYPE_SFIXED64} then WIRETYPE_FIXED64
     else if t \<in> {TYPE_FLOAT, TYPE_FIXED32, TYPE_SFIXED32} then WIRETYPE_FIXED32
     else if t \<in> {TYPE_STRING, TYPE_MESSAGE, TYPE_BYTES} then WIRETYPE_LENGTH_DELIMITED
     else if t = TYPE_GROUP then WIRETYPE_START_GROUP
     else WIRETYPE_VARINT"

abbreviation sample_GetJavaType :: "FieldDescriptor \<Rightarrow> JavaType" where
  "sample_GetJavaType \<equiv> \<lambda>f.
     if type f \<in> {TYPE_MESSAGE, TYPE_GROUP} then JAVATYPE_MESSAGE else JAVATYPE_INT"

abbreviation sample_input :: "32 word list ParseRuntime" where
  "sample_input \<equiv>
     \<lparr>readTag = (\<lambda>s. case s of [] \<Rightarrow> Inr (0, []) | t # ts \<Rightarrow> Inr (t, ts)),
      runParseAction = (\<lambda>a s. Inr s),
      parseUnknownField = (\<lambda>tag s. Inr (tag \<noteq> 12, s)),
      parse_onChanged = (\<lambda>s. s)\<rparr>"



section \<open>The memo table holds the entries of the files\<close>

lemma cache_ok_empty: "cache_ok Map.empty"
  by (simp add: cache_ok_def)

lemma cache_insert_ok:
  "cache_ok cache \<Longrightarrow> cache_insert file (closure_entry file) cache = (entry, cache') \<Longrightarrow>
   entry = closure_entry file \<and> cache_ok cache' \<and> cache' file = Some entry"
  by (auto simp: cache_insert_def cache_ok_def split: option.splits if_splits)

lemma fold_memo:
  assumes "\<forall>d \<in> set ds. memo_ok d" and "cache_ok c"
  shows "\<exists>c'. fold (\<lambda>dep (acc, c).
                  case CollectMinimalFileDepsContainingExtensionsInternal dep c of
                    (dep_info, c') \<Rightarrow> (absorb_dep dep dep_info acc, c')) ds (acc, c)
          = (fold (\<lambda>dep acc. absorb_dep dep (closure_entry dep) acc) ds acc, c') \<and> cache_ok c'"
  using assms
proof (induction ds arbitrary: acc c)
  case Nil
  then show ?case by simp
next
  case (Cons d ds)
  obtain e c1 where call: "CollectMinimalFileDepsContainingExtensionsInternal d c = (e, c1)"
    by (cases "CollectMinimalFileDepsContainingExtensionsInternal d c")
  from Cons.prems call have e: "e = closure_entry d" and c1: "cache_ok c1"
    by (auto simp: memo_ok_def)
  from Cons.IH [of c1 "absorb_dep d e acc"] Cons.prems c1
  show ?case by (simp add: call e)
qed

lemma memo_ok_all: "memo_ok fd"
proof (induction fd)
  case (FileDescriptor n deps ec mts)
  have deps_ok: "\<forall>d \<in> set deps. memo_ok d"
    using FileDescriptor.IH by blast
  show ?case
    unfolding memo_ok_def
  proof (intro allI impI)
    fix cache assume ok: "cache_ok cache"
    let ?f = "FileDescriptor n deps ec mts"
    show "case CollectMinimalFileDepsContainingExtensionsInternal ?f cache of
           (entry, cache') \<Rightarrow> entry = closure_entry ?f \<and> cache_ok cache' \<and> cache' ?f = Some entry"
    proof (cases "cache ?f")
      case (Some it)
      with ok have "it = closure_entry ?f" by (simp add: cache_ok_def)
      with Some ok show ?thesis by simp
    next
      case None
      from fold_memo [OF deps_ok ok, of "({}, {}, {})"]
      obtain c' where f: "fold (\<lambda>dep (acc, c).
                  case CollectMinimalFileDepsContainingExtensionsInternal dep c of
                    (dep_info, c') \<Rightarrow> (absorb_dep dep dep_info acc, c')) deps (({}, {}, {}), cache)
          = (fold (\<lambda>dep acc. absorb_dep dep (closure_entry dep) acc) deps ({}, {}, {}), c')"
        and c': "cache_ok c'" by blast
      obtain e c2 where ins: "cache_insert ?f (closure_entry ?f) c' = (e, c2)"
        by (cases "cache_insert ?f (closure_entry ?f) c'")
      from cache_insert_ok [OF c' ins] ins None f show ?thesis
        by (simp add: closure_entry.simps [of n deps ec mts, symmetric])
    qed
  qed
qed

lemma memo_correct:
  assumes "cache_ok cache"
  shows "fst (CollectMinimalFileDepsContainingExtensionsInternal fd cache) = closure_entry fd"
    and "cache_ok (snd (CollectMinimalFileDepsContainingExtensionsInternal fd cache))"
proof -
  obtain e c where call: "CollectMinimalFileDepsContainingExtensionsInternal fd cache = (e, c)"
    by (cases "CollectMinimalFileDepsContainingExtensionsInternal fd cache")
  from memo_ok_all [of fd] assms call have "e = closure_entry fd \<and> cache_ok c"
    unfolding memo_ok_def by fastforce
  with call
  show "fst (CollectMinimalFileDepsContainingExtensionsInternal fd cache) = closure_entry fd"
    and "cache_ok (snd (CollectMinimalFileDepsContainingExtensionsInternal fd cache))"
    by simp_all
qed

lemma reachable_cache_ok: "reachable_cache cache \<Longrightarrow> cache_ok cache"
proof (induction rule: reachable_cache.induct)
  case fresh
  show ?case by (rule cache_ok_empty)
next
  case (after_call cache fd)
  then show ?case by (simp add: memo_correct(2))
qed

lemmas internal_closure_entry = memo_correct(1)

lemma internal_cached:
  "snd (CollectMinimalFileDepsContainingExtensionsInternal fd cache) fd =
     Some (fst (CollectMinimalFileDepsContainingExtensionsInternal fd cache))"
  by (cases fd) (auto simp: cache_insert_def split: option.splits prod.splits)

lemma min_deps_of_eq: "min_deps_of x = min_deps (closure_entry x)"
  by (simp add: min_deps_of_def internal_closure_entry cache_ok_empty)

lemma absorb_dep_parts:
  "absorb_dep d (closure_entry d) (m, c, p) = (m \<union> min_part d, c \<union> cov_part d, p \<union> cov_part d)"
  by (auto simp: absorb_dep_def Let_def min_part_def cov_part_def)

lemma fold_absorb:
  "fold (\<lambda>dep acc. absorb_dep dep (closure_entry dep) acc) ds (m, c, p) =
     (m \<union> (\<Union>d \<in> set ds. min_part d), c \<union> (\<Union>d \<in> set ds. cov_part d),
      p \<union> (\<Union>d \<in> set ds. cov_part d))"
proof (induction ds arbitrary: m c p)
  case Nil
  show ?case by simp
next
  case (Cons d ds)
  show ?case
    by (simp only: fold_simps absorb_dep_parts Cons.IH) (simp add: Un_assoc)
qed

lemma closure_entry_eq:
  "closure_entry (FileDescriptor n deps ec mts) =
     finish_entry (FileDescriptor n deps ec mts)
       (\<Union>d \<in> set deps. min_part d, \<Union>d \<in> set deps. cov_part d, \<Union>d \<in> set deps. cov_part d)"
  using fold_absorb [of deps "{}" "{}" "{}"] by (simp add: closure_entry.simps)

lemma has_extensions_closure_entry:
  "has_extensions (closure_entry fd) = FileContainsExtensions fd"
  by (cases fd) (simp add: closure_entry_eq finish_entry_def Let_def)

lemma covered_deps_closure_entry:
  "covered_deps (closure_entry fd) = (\<Union>d \<in> set (dependency fd). cov_part d)"
  by (cases fd) (simp add: closure_entry_eq finish_entry_def Let_def)

lemma min_deps_closure_entry:
  "min_deps (closure_entry fd) =
     (if (\<Union>d \<in> set (dependency fd). cov_part d) = {} \<or> dependency_count fd = 1
      then (\<Union>d \<in> set (dependency fd). min_part d)
      else (\<Union>d \<in> set (dependency fd). min_part d) - (\<Union>d \<in> set (dependency fd). cov_part d))"
  by (cases fd) (auto simp add: closure_entry_eq finish_entry_def Let_def)

lemma min_deps_subset: "min_deps (closure_entry fd) \<subseteq> (\<Union>d \<in> set (dependency fd). min_part d)"
  by (auto simp: min_deps_closure_entry split: if_splits)

lemma size_dependency: "d \<in> set (dependency fd) \<Longrightarrow> size d < size fd"
  by (cases fd) (auto simp: less_Suc_eq_le size_list_estimation')

lemma closure_smaller:
  "x \<in> min_deps (closure_entry fd) \<union> covered_deps (closure_entry fd) \<Longrightarrow> size x < size fd"
proof (induction fd arbitrary: x)
  case (FileDescriptor n deps ec mts)
  let ?f = "FileDescriptor n deps ec mts"
  from FileDescriptor.prems min_deps_subset [of ?f]
  obtain d where d: "d \<in> set deps" and x: "x \<in> min_part d \<union> cov_part d"
    by (auto simp: covered_deps_closure_entry)
  from x FileDescriptor.IH [OF d, of x] have "size x \<le> size d"
    by (auto simp: min_part_def cov_part_def split: if_splits)
  with size_dependency [of d ?f] d show ?case by simp
qed

lemma not_own_dependency:
  "fd \<notin> min_deps (closure_entry fd)" "fd \<notin> covered_deps (closure_entry fd)"
  using closure_smaller [of fd fd] by auto

lemma finite_closure:
  "finite (min_deps (closure_entry fd)) \<and> finite (covered_deps (closure_entry fd))"
proof (induction fd)
  case (FileDescriptor n deps ec mts)
  then have "\<forall>d \<in> set deps. finite (min_part d) \<and> finite (cov_part d)"
    by (auto simp: min_part_def cov_part_def)
  then show ?case
    by (auto simp: min_deps_closure_entry covered_deps_closure_entry)
qed

lemma covers_members:
  "x \<in> min_deps (closure_entry fd) \<Longrightarrow>
   min_deps (closure_entry x) \<union> covered_deps (closure_entry x) \<subseteq> covered_deps (closure_entry fd)"
proof (induction fd arbitrary: x)
  case (FileDescriptor n deps ec mts)
  let ?f = "FileDescriptor n deps ec mts"
  from FileDescriptor.prems min_deps_subset [of ?f]
  obtain d where d: "d \<in> set deps" and x: "x \<in> min_part d" by auto
  have "min_deps (closure_entry x) \<union> covered_deps (closure_entry x) \<subseteq> cov_part d"
  proof (cases "has_extensions (closure_entry d)")
    case True
    with x show ?thesis by (auto simp: min_part_def cov_part_def)
  next
    case False
    with x FileDescriptor.IH [OF d, of x] show ?thesis
      by (auto simp: min_part_def cov_part_def)
  qed
  with d show ?case by (auto simp: covered_deps_closure_entry)
qed

lemma min_covered_disjoint:
  "min_deps (closure_entry fd) \<inter> covered_deps (closure_entry fd) = {}"
proof (induction fd)
  case (FileDescriptor n deps ec mts)
  let ?f = "FileDescriptor n deps ec mts"
  show ?case
  proof (cases "(\<Union>d \<in> set deps. cov_part d) = {} \<or> length deps = 1")
    case False
    then show ?thesis
      by (auto simp: min_deps_closure_entry covered_deps_closure_entry dependency_count_def)
  next
    case True
    show ?thesis
    proof (cases "(\<Union>d \<in> set deps. cov_part d) = {}")
      case True
      then show ?thesis by (simp add: covered_deps_closure_entry)
    next
      case False
      with True obtain d where deps: "deps = [d]"
        by (cases deps) auto
      have "min_part d \<inter> cov_part d = {}"
        using FileDescriptor.IH [of d] not_own_dependency [of d]
        by (auto simp: deps min_part_def cov_part_def)
      then show ?thesis
        by (simp add: min_deps_closure_entry covered_deps_closure_entry deps dependency_count_def)
    qed
  qed
qed

lemma min_dep_chain_covered:
  "(x, y) \<in> min_dep_chain\<^sup>+ \<Longrightarrow> y \<in> min_deps (closure_entry x) \<union> covered_deps (closure_entry x)"
proof (induction rule: converse_trancl_induct)
  case (base x)
  then show ?case by (simp add: min_dep_chain_def min_deps_of_eq)
next
  case (step x w)
  from step.hyps(1) have "w \<in> min_deps (closure_entry x)" by (simp add: min_dep_chain_def min_deps_of_eq)
  from covers_members [OF this] step.IH show ?case by blast
qed

lemma no_redundant:
  assumes "x \<in> min_deps (closure_entry fd)" "y \<in> min_deps (closure_entry fd)"
  shows "(x, y) \<notin> min_dep_chain\<^sup>+"
proof
  assume "(x, y) \<in> min_dep_chain\<^sup>+"
  from min_dep_chain_covered [OF this] covers_members [OF assms(1)]
  have "y \<in> covered_deps (closure_entry fd)" by blast
  with assms(2) min_covered_disjoint [of fd] show False by blast
qed

lemma MessageContainsExtensions_iff:
  "MessageContainsExtensions m \<longleftrightarrow> (\<exists>x. nested_in_message x m \<and> extension_count x > 0)"
proof (induction m)
  case (Descriptor n fs ec rc nested)
  show ?case
  proof
    assume l: "MessageContainsExtensions (Descriptor n fs ec rc nested)"
    show "\<exists>x. nested_in_message x (Descriptor n fs ec rc nested) \<and> extension_count x > 0"
    proof (cases "ec > 0")
      case True
      then have "nested_in_message (Descriptor n fs ec rc nested) (Descriptor n fs ec rc nested) \<and>
        extension_count (Descriptor n fs ec rc nested) > 0"
        by (simp add: nested_in_message.self)
      then show ?thesis by blast
    next
      case False
      with l obtain k where k: "k \<in> set nested" "MessageContainsExtensions k"
        by (auto simp: list_ex_iff)
      with Descriptor.IH obtain x where "nested_in_message x k" "extension_count x > 0"
        by blast
      with k(1) nested_in_message.deeper [of k "Descriptor n fs ec rc nested" x] show ?thesis
        by auto
    qed
  next
    assume "\<exists>x. nested_in_message x (Descriptor n fs ec rc nested) \<and> extension_count x > 0"
    then obtain x where x: "nested_in_message x (Descriptor n fs ec rc nested)" "extension_count x > 0"
      by blast
    from x(1) show "MessageContainsExtensions (Descriptor n fs ec rc nested)"
    proof (cases rule: nested_in_message.cases)
      case self
      with x(2) show ?thesis by auto
    next
      case (deeper k)
      with Descriptor.IH [of k] x(2) show ?thesis
        by (auto simp: list_ex_iff)
    qed
  qed
qed

lemma FileContainsExtensions_iff:
  "FileContainsExtensions fd \<longleftrightarrow> declares_extension_somewhere fd"
  by (auto simp: FileContainsExtensions_def declares_extension_somewhere_def list_ex_iff
      MessageContainsExtensions_iff)

lemma insert_sorted_by_name:
  "insert_sorted FileDescriptorsOrderedByName x ys = insort_key name x ys"
  by (induction ys) (auto simp: FileDescriptorsOrderedByName_def)

lemma std_sort_by_name: "std_sort FileDescriptorsOrderedByName xs = sort_key name xs"
proof -
  have "insert_sorted FileDescriptorsOrderedByName = insort_key name"
    by (intro ext) (rule insert_sorted_by_name)
  then show ?thesis by (simp add: std_sort_def sort_key_def)
qed

lemma sort_key_unique:
  assumes "inj_on f (set xs)" "distinct xs" "distinct ys" "set xs = set ys"
  shows "sort_key f xs = sort_key f ys"
proof -
  have "map f (sort_key f xs) = map f (sort_key f ys)"
  proof (rule sorted_distinct_set_unique)
    show "sorted (map f (sort_key f xs))" "sorted (map f (sort_key f ys))"
      by (rule sorted_sort_key)+
    show "distinct (map f (sort_key f xs))"
      using assms(1,2) by (simp add: distinct_map)
    show "distinct (map f (sort_key f ys))"
      using assms(1,3,4) by (simp add: distinct_map)
    show "set (map f (sort_key f xs)) = set (map f (sort_key f ys))"
      using assms(4) by simp
  qed
  moreover have "inj_on f (set (sort_key f xs) \<union> set (sort_key f ys))"
    using assms(1,4) by simp
  ultimately show ?thesis by (simp add: inj_on_map_eq_map)
qed

lemma sort_key_strict:
  assumes "inj_on f (set xs)" "distinct xs"
  shows "sorted_wrt (\<lambda>a b. f a < f b) (sort_key f xs)"
proof -
  have "sorted (map f (sort_key f xs))" by (rule sorted_sort_key)
  moreover have "distinct (map f (sort_key f xs))"
    using assms by (simp add: distinct_map)
  ultimately have "sorted_wrt (<) (map f (sort_key f xs))"
    by (simp add: strict_sorted_iff)
  then show ?thesis by (simp add: sorted_wrt_map)
qed

section \<open>The claims about objectivec/file.cc\<close>

text \<open>
  Claim C1 as stated fails where \<open>B\<close> imports nothing: the entry of \<open>A\<close> has
  \<open>min_deps = {B}\<close>, but its \<open>covered_deps\<close> is empty and so not a superset of \<open>{B}\<close>.
\<close>

theorem scenario_covered_deps_superset_counterexample:
  "\<not> (min_deps (fst (CollectMinimalFileDepsContainingExtensionsInternal
          (FileDescriptor ''a.proto''
             [FileDescriptor ''b.proto'' [] 1 [],
              FileDescriptor ''c.proto'' [FileDescriptor ''b.proto'' [] 1 []] 0 []] 0 [])
          Map.empty)) = {FileDescriptor ''b.proto'' [] 1 []} \<and>
       {FileDescriptor ''b.proto'' [] 1 []} \<subseteq>
       covered_deps (fst (CollectMinimalFileDepsContainingExtensionsInternal
          (FileDescriptor ''a.proto''
             [FileDescriptor ''b.proto'' [] 1 [],
              FileDescriptor ''c.proto'' [FileDescriptor ''b.proto'' [] 1 []] 0 []] 0 [])
          Map.empty)))"
  by (simp add: cache_insert_def finish_entry_def FileContainsExtensions_def absorb_dep_def
        dependency_count_def Let_def)

lemma scenario_covered_deps_empty:
  "covered_deps (fst (CollectMinimalFileDepsContainingExtensionsInternal
          (FileDescriptor ''a.proto''
             [FileDescriptor ''b.proto'' [] 1 [],
              FileDescriptor ''c.proto'' [FileDescriptor ''b.proto'' [] 1 []] 0 []] 0 [])
          Map.empty)) = {}"
  by (simp add: cache_insert_def finish_entry_def FileContainsExtensions_def absorb_dep_def
        dependency_count_def Let_def)

text \<open>
  Claim C1, as amended. File \<open>A\<close> imports \<open>B\<close> and \<open>C\<close> (in either order),
  \<open>B\<close> contains extensions, and \<open>C\<close> imports \<open>B\<close> and contains none. On any table the state can hold, the entry
  computed for \<open>A\<close> has \<open>min_deps = {B}\<close>; its \<open>covered_deps\<close> is what the entry of
  \<open>B\<close> covers together with the minimal set of \<open>B\<close>, and \<open>B\<close> itself is not a member of
  it: a direct dependency that is listed in \<open>min_deps\<close> is never also covered.
\<close>

theorem scenario_min_deps_and_covered_deps:
  assumes "reachable_cache cache"
    and "FileContainsExtensions B"
    and "dependency C = [B]" and "\<not> FileContainsExtensions C"
    and "set (dependency A) = {B, C}"
  shows "min_deps (fst (CollectMinimalFileDepsContainingExtensionsInternal A cache)) = {B} \<and>
         covered_deps (fst (CollectMinimalFileDepsContainingExtensionsInternal A cache)) =
           covered_deps (fst (CollectMinimalFileDepsContainingExtensionsInternal B cache)) \<union>
           min_deps (fst (CollectMinimalFileDepsContainingExtensionsInternal B cache)) \<and>
         B \<notin> covered_deps (fst (CollectMinimalFileDepsContainingExtensionsInternal A cache))"
proof -
  from assms(1) have ok: "cache_ok cache" by (rule reachable_cache_ok)
  have mB: "min_part B = {B}"
    using assms(2) by (simp add: min_part_def has_extensions_closure_entry)
  have cB: "cov_part B = covered_deps (closure_entry B) \<union> min_deps (closure_entry B)"
    using assms(2) by (simp add: cov_part_def has_extensions_closure_entry)
  have notin: "B \<notin> cov_part B"
    using not_own_dependency [of B] by (simp add: cB)
  have covC: "covered_deps (closure_entry C) = cov_part B"
    by (simp add: covered_deps_closure_entry assms(3))
  have minC: "min_deps (closure_entry C) = {B}"
    by (simp add: min_deps_closure_entry assms(3) dependency_count_def mB)
  have mC: "min_part C = {B}"
    using assms(4) by (simp add: min_part_def has_extensions_closure_entry minC)
  have cC: "cov_part C = cov_part B"
    using assms(4) by (simp add: cov_part_def has_extensions_closure_entry covC)
  have covA: "covered_deps (closure_entry A) = cov_part B"
    by (simp add: covered_deps_closure_entry assms(5) cC)
  have "B \<noteq> C"
    using size_dependency [of B C] assms(3) by auto
  with assms(5) have several: "dependency_count A \<noteq> 1"
    by (auto simp: dependency_count_def length_Suc_conv)
  have minA: "min_deps (closure_entry A) = {B}"
    using notin several by (auto simp add: min_deps_closure_entry assms(5) mB mC cC)
  from minA covA notin cB show ?thesis
    by (simp add: internal_closure_entry [OF ok])
qed

theorem scenario_min_deps_witness:
  "reachable_cache Map.empty \<and>
   FileContainsExtensions (FileDescriptor ''b.proto'' [FileDescriptor ''d.proto'' [] 1 []] 1 []) \<and>
   dependency (FileDescriptor ''c.proto'' [FileDescriptor ''b.proto'' [FileDescriptor ''d.proto'' [] 1 []] 1 []] 0 []) =
     [FileDescriptor ''b.proto'' [FileDescriptor ''d.proto'' [] 1 []] 1 []] \<and>
   \<not> FileContainsExtensions (FileDescriptor ''c.proto'' [FileDescriptor ''b.proto'' [FileDescriptor ''d.proto'' [] 1 []] 1 []] 0 []) \<and>
   min_deps (fst (CollectMinimalFileDepsContainingExtensionsInternal
     (FileDescriptor ''a.proto''
        [FileDescriptor ''b.proto'' [FileDescriptor ''d.proto'' [] 1 []] 1 [],
         FileDescriptor ''c.proto'' [FileDescriptor ''b.proto'' [FileDescriptor ''d.proto'' [] 1 []] 1 []] 0 []]
        0 []) Map.empty)) =
     {FileDescriptor ''b.proto'' [FileDescriptor ''d.proto'' [] 1 []] 1 []} \<and>
   FileDescriptor ''b.proto'' [FileDescriptor ''d.proto'' [] 1 []] 1 [] \<notin>
   covered_deps (fst (CollectMinimalFileDepsContainingExtensionsInternal
     (FileDescriptor ''a.proto''
        [FileDescriptor ''b.proto'' [FileDescriptor ''d.proto'' [] 1 []] 1 [],
         FileDescriptor ''c.proto'' [FileDescriptor ''b.proto'' [FileDescriptor ''d.proto'' [] 1 []] 1 []] 0 []]
        0 []) Map.empty))"
proof -
  let ?b = "FileDescriptor ''b.proto'' [FileDescriptor ''d.proto'' [] 1 []] 1 []"
  let ?c = "FileDescriptor ''c.proto'' [?b] 0 []"
  let ?a = "FileDescriptor ''a.proto'' [?b, ?c] 0 []"
  have 1: "FileContainsExtensions ?b" by (simp add: FileContainsExtensions_def)
  have 2: "dependency ?c = [?b]" by simp
  have 3: "\<not> FileContainsExtensions ?c" by (simp add: FileContainsExtensions_def)
  have 4: "set (dependency ?a) = {?b, ?c}" by simp
  from scenario_min_deps_and_covered_deps [OF reachable_cache.fresh 1 2 3 4] reachable_cache.fresh 1 2 3
  show ?thesis by blast
qed

text \<open>
  Claim C2. For every file (the import graph is acyclic by construction) and every table the
  state can hold, no member of the \<open>min_deps\<close> of the file's entry is reachable through the
  chain of minimal sets from a member of that same set. The statement does not ask the two
  members to differ, so it also says that no member reaches itself; it covers the entries
  made on the fast path, where pruning is skipped.
\<close>

theorem min_deps_no_redundant_member:
  assumes "reachable_cache cache"
    and "x \<in> min_deps (fst (CollectMinimalFileDepsContainingExtensionsInternal fd cache))"
    and "y \<in> min_deps (fst (CollectMinimalFileDepsContainingExtensionsInternal fd cache))"
  shows "(x, y) \<notin> min_dep_chain\<^sup>+"
  using assms no_redundant [of x fd y]
  by (simp add: internal_closure_entry reachable_cache_ok)

theorem min_deps_no_redundant_witness:
  "reachable_cache Map.empty \<and>
   FileDescriptor ''b1.proto'' [] 1 [] \<in> min_deps (fst (CollectMinimalFileDepsContainingExtensionsInternal
      (FileDescriptor ''a.proto''
         [FileDescriptor ''c.proto'' [FileDescriptor ''b1.proto'' [] 1 [], FileDescriptor ''b2.proto'' [] 1 []] 0 []]
         0 []) Map.empty)) \<and>
   FileDescriptor ''b2.proto'' [] 1 [] \<in> min_deps (fst (CollectMinimalFileDepsContainingExtensionsInternal
      (FileDescriptor ''a.proto''
         [FileDescriptor ''c.proto'' [FileDescriptor ''b1.proto'' [] 1 [], FileDescriptor ''b2.proto'' [] 1 []] 0 []]
         0 []) Map.empty)) \<and>
   (FileDescriptor ''b1.proto'' [] 1 [], FileDescriptor ''b2.proto'' [] 1 []) \<notin> min_dep_chain\<^sup>+"
proof -
  let ?b1 = "FileDescriptor ''b1.proto'' [] 1 []"
  let ?b2 = "FileDescriptor ''b2.proto'' [] 1 []"
  let ?a = "FileDescriptor ''a.proto'' [FileDescriptor ''c.proto'' [?b1, ?b2] 0 []] 0 []"
  have m: "min_deps (fst (CollectMinimalFileDepsContainingExtensionsInternal ?a Map.empty)) = {?b1, ?b2}"
    by (simp add: cache_insert_def finish_entry_def FileContainsExtensions_def absorb_dep_def
        dependency_count_def Let_def insert_commute)
  from m have 1: "?b1 \<in> min_deps (fst (CollectMinimalFileDepsContainingExtensionsInternal ?a Map.empty))"
    and 2: "?b2 \<in> min_deps (fst (CollectMinimalFileDepsContainingExtensionsInternal ?a Map.empty))"
    by simp_all
  from min_deps_no_redundant_member [OF reachable_cache.fresh 1 2] 1 2 reachable_cache.fresh show ?thesis by blast
qed

text \<open>
  Claim C9. The list returned by \<open>CollectMinimalFileDepsContainingExtensions\<close> has exactly
  the members of the \<open>min_deps\<close> of the entry the table holds for the file afterwards, in
  strictly ascending order of \<open>name()\<close>, and it is the same list for any two orders in which
  the hash set may be iterated. File names identify files, so \<open>name\<close> is injective on the set.
\<close>

theorem sorted_min_deps_any_iteration_order:
  assumes "entry = fst (CollectMinimalFileDepsContainingExtensionsInternal fd cache)"
    and "inj_on name (min_deps entry)"
    and "enumerates iteration (min_deps entry)"
    and "enumerates iteration' (min_deps entry)"
  shows "snd (CollectMinimalFileDepsContainingExtensions iteration fd cache) fd = Some entry \<and>
         set (fst (CollectMinimalFileDepsContainingExtensions iteration fd cache)) = min_deps entry \<and>
         sorted_wrt (\<lambda>a b. name a < name b)
           (fst (CollectMinimalFileDepsContainingExtensions iteration fd cache)) \<and>
         fst (CollectMinimalFileDepsContainingExtensions iteration' fd cache) =
           fst (CollectMinimalFileDepsContainingExtensions iteration fd cache)"
proof -
  have res: "fst (CollectMinimalFileDepsContainingExtensions it fd cache) =
      sort_key name (it (min_deps entry))" for it
    by (simp add: CollectMinimalFileDepsContainingExtensions_def assms(1) std_sort_by_name
        case_prod_beta)
  have tab: "snd (CollectMinimalFileDepsContainingExtensions iteration fd cache) fd = Some entry"
    using internal_cached [of fd cache]
    by (simp add: CollectMinimalFileDepsContainingExtensions_def assms(1) case_prod_beta)
  from assms(3) have e: "set (iteration (min_deps entry)) = min_deps entry"
    "distinct (iteration (min_deps entry))" by (simp_all add: enumerates_def)
  from assms(4) have e': "set (iteration' (min_deps entry)) = min_deps entry"
    "distinct (iteration' (min_deps entry))" by (simp_all add: enumerates_def)
  have inj: "inj_on name (set (iteration (min_deps entry)))"
    "inj_on name (set (iteration' (min_deps entry)))"
    using assms(2) e(1) e'(1) by simp_all
  have "sort_key name (iteration' (min_deps entry)) = sort_key name (iteration (min_deps entry))"
    by (rule sort_key_unique [OF inj(2) e'(2) e(2)]) (simp add: e e')
  moreover have "sorted_wrt (\<lambda>a b. name a < name b) (sort_key name (iteration (min_deps entry)))"
    by (rule sort_key_strict [OF inj(1) e(2)])
  ultimately show ?thesis
    by (simp add: res tab e)
qed

theorem sorted_min_deps_witness:
  "inj_on name (min_deps (fst (CollectMinimalFileDepsContainingExtensionsInternal
      (FileDescriptor ''a.proto''
         [FileDescriptor ''y.proto'' [] 1 [], FileDescriptor ''x.proto'' [] 1 []] 0 []) Map.empty))) \<and>
   enumerates (\<lambda>S. [FileDescriptor ''y.proto'' [] 1 [], FileDescriptor ''x.proto'' [] 1 []])
     (min_deps (fst (CollectMinimalFileDepsContainingExtensionsInternal
      (FileDescriptor ''a.proto''
         [FileDescriptor ''y.proto'' [] 1 [], FileDescriptor ''x.proto'' [] 1 []] 0 []) Map.empty))) \<and>
   enumerates (\<lambda>S. [FileDescriptor ''x.proto'' [] 1 [], FileDescriptor ''y.proto'' [] 1 []])
     (min_deps (fst (CollectMinimalFileDepsContainingExtensionsInternal
      (FileDescriptor ''a.proto''
         [FileDescriptor ''y.proto'' [] 1 [], FileDescriptor ''x.proto'' [] 1 []] 0 []) Map.empty))) \<and>
   fst (CollectMinimalFileDepsContainingExtensions
      (\<lambda>S. [FileDescriptor ''y.proto'' [] 1 [], FileDescriptor ''x.proto'' [] 1 []])
      (FileDescriptor ''a.proto''
         [FileDescriptor ''y.proto'' [] 1 [], FileDescriptor ''x.proto'' [] 1 []] 0 []) Map.empty) =
     [FileDescriptor ''x.proto'' [] 1 [], FileDescriptor ''y.proto'' [] 1 []] \<and>
   fst (CollectMinimalFileDepsContainingExtensions
      (\<lambda>S. [FileDescriptor ''x.proto'' [] 1 [], FileDescriptor ''y.proto'' [] 1 []])
      (FileDescriptor ''a.proto''
         [FileDescriptor ''y.proto'' [] 1 [], FileDescriptor ''x.proto'' [] 1 []] 0 []) Map.empty) =
     [FileDescriptor ''x.proto'' [] 1 [], FileDescriptor ''y.proto'' [] 1 []]"
proof -
  let ?x = "FileDescriptor ''x.proto'' [] 1 []"
  let ?y = "FileDescriptor ''y.proto'' [] 1 []"
  let ?a = "FileDescriptor ''a.proto'' [?y, ?x] 0 []"
  let ?e = "fst (CollectMinimalFileDepsContainingExtensionsInternal ?a Map.empty)"
  have m: "min_deps ?e = {?x, ?y}"
    by (simp add: cache_insert_def finish_entry_def FileContainsExtensions_def absorb_dep_def
        dependency_count_def Let_def)
  have 1: "inj_on name (min_deps ?e)" unfolding m by simp
  have 2: "enumerates (\<lambda>S. [?y, ?x]) (min_deps ?e)"
    unfolding m by (simp add: enumerates_def insert_commute)
  have 3: "enumerates (\<lambda>S. [?x, ?y]) (min_deps ?e)"
    unfolding m by (simp add: enumerates_def)
  have 4: "fst (CollectMinimalFileDepsContainingExtensions (\<lambda>S. [?y, ?x]) ?a Map.empty) = [?x, ?y]"
    unfolding CollectMinimalFileDepsContainingExtensions_def case_prod_beta m
    by (simp add: std_sort_def FileDescriptorsOrderedByName_def)
  from sorted_min_deps_any_iteration_order [OF refl 1 2 3] 1 2 3 4 show ?thesis by simp
qed

text \<open>
  Claim C10. On any table the state can hold, the entry of a file is the one the table holds
  for it after the call, and its \<open>has_extensions\<close> flag is true exactly when the file
  declares a file-level extension or some message of the file, at any nesting depth,
  declares one.
\<close>

theorem has_extensions_flag_iff_nested_extension: 
  assumes "reachable_cache cache"
  shows "snd (CollectMinimalFileDepsContainingExtensionsInternal fd cache) fd =
           Some (fst (CollectMinimalFileDepsContainingExtensionsInternal fd cache)) \<and>
         has_extensions (fst (CollectMinimalFileDepsContainingExtensionsInternal fd cache)) =
           declares_extension_somewhere fd"
  using assms
  by (simp add: internal_cached internal_closure_entry reachable_cache_ok
      has_extensions_closure_entry FileContainsExtensions_iff)

theorem has_extensions_flag_witness:
  "reachable_cache Map.empty \<and>
   has_extensions (fst (CollectMinimalFileDepsContainingExtensionsInternal
     (FileDescriptor ''a.proto'' [] 0
        [Descriptor ''Outer'' [] 0 0 [Descriptor ''Middle'' [] 0 0 [Descriptor ''Inner'' [] 1 0 []]]])
     Map.empty)) \<and>
   declares_extension_somewhere
     (FileDescriptor ''a.proto'' [] 0
        [Descriptor ''Outer'' [] 0 0 [Descriptor ''Middle'' [] 0 0 [Descriptor ''Inner'' [] 1 0 []]]])"
proof -
  let ?f = "FileDescriptor ''a.proto'' [] 0
        [Descriptor ''Outer'' [] 0 0 [Descriptor ''Middle'' [] 0 0 [Descriptor ''Inner'' [] 1 0 []]]]"
  have flag: "has_extensions (fst (CollectMinimalFileDepsContainingExtensionsInternal ?f Map.empty))"
    by (simp add: cache_insert_def finish_entry_def FileContainsExtensions_def)
  with has_extensions_flag_iff_nested_extension [OF reachable_cache.fresh, of ?f] reachable_cache.fresh show ?thesis by simp
qed

section \<open>Further properties of the memo table and of the covered set\<close>

text \<open>
  The memo table never changes a result: on any table the state can hold, the entry returned
  for a file is the entry computed for it on a fresh table.
\<close>

theorem memo_table_transparent:
  assumes "reachable_cache cache"
  shows "fst (CollectMinimalFileDepsContainingExtensionsInternal fd cache) =
         fst (CollectMinimalFileDepsContainingExtensionsInternal fd Map.empty)"
  using assms by (simp add: internal_closure_entry reachable_cache_ok cache_ok_empty)

theorem memo_table_transparent_witness:
  "reachable_cache
     (snd (CollectMinimalFileDepsContainingExtensionsInternal
        (FileDescriptor ''b.proto'' [] 1 []) Map.empty)) \<and>
   fst (CollectMinimalFileDepsContainingExtensionsInternal
     (FileDescriptor ''a.proto'' [FileDescriptor ''b.proto'' [] 1 []] 0 [])
     (snd (CollectMinimalFileDepsContainingExtensionsInternal
        (FileDescriptor ''b.proto'' [] 1 []) Map.empty))) =
   fst (CollectMinimalFileDepsContainingExtensionsInternal
     (FileDescriptor ''a.proto'' [FileDescriptor ''b.proto'' [] 1 []] 0 []) Map.empty)"
proof -
  have r: "reachable_cache
     (snd (CollectMinimalFileDepsContainingExtensionsInternal
        (FileDescriptor ''b.proto'' [] 1 []) Map.empty))"
    by (rule reachable_cache.after_call [OF reachable_cache.fresh])
  from memo_table_transparent [OF r] r show ?thesis by blast
qed

text \<open>
  The covered set of a file contains the covered set of each of its dependencies, on any
  table the state can hold.
\<close>

theorem covered_deps_contains_dependency_covered_deps:
  assumes "reachable_cache cache" and "d \<in> set (dependency fd)"
  shows "covered_deps (fst (CollectMinimalFileDepsContainingExtensionsInternal d cache)) \<subseteq>
         covered_deps (fst (CollectMinimalFileDepsContainingExtensionsInternal fd cache))"
  using assms
  by (auto simp: internal_closure_entry reachable_cache_ok covered_deps_closure_entry [of fd]
      cov_part_def)

theorem covered_deps_contains_dependency_covered_deps_witness:
  "reachable_cache Map.empty \<and>
   FileDescriptor ''c.proto'' [FileDescriptor ''b2.proto'' [FileDescriptor ''b1.proto'' [] 1 []] 1 []] 0 []
     \<in> set (dependency (FileDescriptor ''a.proto''
         [FileDescriptor ''c.proto'' [FileDescriptor ''b2.proto'' [FileDescriptor ''b1.proto'' [] 1 []] 1 []] 0 []]
         0 [])) \<and>
   covered_deps (fst (CollectMinimalFileDepsContainingExtensionsInternal
     (FileDescriptor ''c.proto'' [FileDescriptor ''b2.proto'' [FileDescriptor ''b1.proto'' [] 1 []] 1 []] 0 [])
     Map.empty)) \<subseteq>
   covered_deps (fst (CollectMinimalFileDepsContainingExtensionsInternal
     (FileDescriptor ''a.proto''
         [FileDescriptor ''c.proto'' [FileDescriptor ''b2.proto'' [FileDescriptor ''b1.proto'' [] 1 []] 1 []] 0 []]
         0 [])
     Map.empty)) \<and>
   covered_deps (fst (CollectMinimalFileDepsContainingExtensionsInternal
     (FileDescriptor ''c.proto'' [FileDescriptor ''b2.proto'' [FileDescriptor ''b1.proto'' [] 1 []] 1 []] 0 [])
     Map.empty)) = {FileDescriptor ''b1.proto'' [] 1 []}"
proof -
  let ?c = "FileDescriptor ''c.proto'' [FileDescriptor ''b2.proto'' [FileDescriptor ''b1.proto'' [] 1 []] 1 []] 0 []"
  let ?a = "FileDescriptor ''a.proto'' [?c] 0 []"
  have m: "?c \<in> set (dependency ?a)" by simp
  have c: "covered_deps (fst (CollectMinimalFileDepsContainingExtensionsInternal ?c Map.empty)) =
      {FileDescriptor ''b1.proto'' [] 1 []}"
    by (simp add: cache_insert_def finish_entry_def FileContainsExtensions_def absorb_dep_def
        dependency_count_def Let_def)
  from covered_deps_contains_dependency_covered_deps [OF reachable_cache.fresh m]
    reachable_cache.fresh m c
  show ?thesis by blast
qed

section \<open>The printed builder methods\<close>

lemma fold_append_line: "fold (\<lambda>i p. p @ [c i]) xs p = p @ map c xs"
  by (induction xs arbitrary: p) simp_all

lemma fold_total: "fold (\<lambda>x total. total + g x) xs a = a + sum_list (map g xs)"
  for a :: int
  by (induction xs arbitrary: a) simp_all

lemma fold_totals:
  "fold (\<lambda>x (b, m). (b + g x, m + h x)) xs (b0, m0) =
     (b0 + sum_list (map g xs), m0 + sum_list (map h xs))"
  for b0 m0 :: int
  by (induction xs arbitrary: b0 m0) simp_all

lemma words_ceiling:
  assumes "0 \<le> t"
  shows "(t + 31) sdiv 32 = \<lceil>real_of_int t / 32\<rceil>"
proof -
  define q where "q = (t + 31) div 32"
  define r where "r = (t + 31) mod 32"
  have parts: "t + 31 = 32 * q + r"
    by (simp add: q_def r_def)
  have lo: "0 \<le> r" and hi: "r < 32"
    by (simp_all add: r_def)
  from parts lo hi have b1: "32 * (q - 1) < t" by arith
  from parts lo hi have b2: "t \<le> 32 * q" by arith
  have "\<lceil>real_of_int t / 32\<rceil> = q"
  proof (rule ceiling_unique)
    from b1 have "real_of_int (32 * (q - 1)) < real_of_int t"
      by (simp only: of_int_less_iff)
    then show "real_of_int q - 1 < real_of_int t / 32" by simp
    from b2 have "real_of_int t \<le> real_of_int (32 * q)"
      by (simp only: of_int_le_iff)
    then show "real_of_int t / 32 \<le> real_of_int q" by simp
  qed
  moreover have "(t + 31) sdiv 32 = q"
    using assms by (simp add: signed_divide_int_def q_def sgn_if)
  ultimately show ?thesis by simp
qed

lemma sum_list_nonneg_bits:
  "\<forall>x \<in> set xs. 0 \<le> g x \<Longrightarrow> 0 \<le> sum_list (map g xs)"
  for g :: "'a \<Rightarrow> int"
  by (induction xs) simp_all

lemma fold_append_if:
  "fold (\<lambda>x p. if P x then p @ [c x] else p) xs p = p @ map c (filter P xs)"
  by (induction xs arbitrary: p) simp_all

lemma fold_append_lines:
  "fold (\<lambda>x p. p @ g x) xs p = p @ concat (map g xs)"
  by (induction xs arbitrary: p) simp_all

lemma oneof_cases_eq: "oneof_cases oneof = oneof_fields oneof"
  by (simp add: oneof_cases_def fold_append_line [where c = "\<lambda>x. x"])





lemma parsing_cases_eq:
  "GenerateBuilderFieldParsingCases MakeTag WireTypeForFieldType d printer =
     printer @ concat (map (arms_of MakeTag WireTypeForFieldType) (SortFieldsByNumber d))"
proof -
  have step: "(\<lambda>field p.
             let p1 = GenerateBuilderFieldParsingCase MakeTag WireTypeForFieldType field p
             in if is_packable field
                then GenerateBuilderPackedFieldParsingCase MakeTag field p1
                else p1) = (\<lambda>field p. p @ arms_of MakeTag WireTypeForFieldType field)"
    by (intro ext) (simp add: GenerateBuilderFieldParsingCase_def
        GenerateBuilderPackedFieldParsingCase_def arms_of_def Let_def)
  show ?thesis
    unfolding GenerateBuilderFieldParsingCases_def step by (rule fold_append_lines)
qed

lemma parsing_methods_eq:
  "GenerateBuilderParsingMethods MakeTag WireTypeForFieldType d [] =
     CaseDone 0 # concat (map (arms_of MakeTag WireTypeForFieldType) (SortFieldsByNumber d)) @
     [DefaultUnknownField]"
  by (simp add: GenerateBuilderParsingMethods_def Let_def parsing_cases_eq)

lemma entries_for_arms_of:
  "entries_for f (arms_of MakeTag WireTypeForFieldType g) =
     (if g = f then arms_of MakeTag WireTypeForFieldType f else [])"
  by (simp add: entries_for_def arms_of_def)

lemma entries_for_concat:
  "distinct xs \<Longrightarrow>
   entries_for f (concat (map (arms_of MakeTag WireTypeForFieldType) xs)) =
     (if f \<in> set xs then arms_of MakeTag WireTypeForFieldType f else [])"
proof (induction xs)
  case Nil
  show ?case by (simp add: entries_for_def)
next
  case (Cons x xs)
  have app: "entries_for f (a @ b) = entries_for f a @ entries_for f b" for a b
    by (simp add: entries_for_def)
  from Cons show ?case
    by (auto simp: app entries_for_arms_of)
qed

lemma select_arm_zero:
  "select_arm (GenerateBuilderParsingMethods MakeTag WireTypeForFieldType d []) 0 = Some (CaseDone 0)"
  by (simp add: parsing_methods_eq select_arm_def)

lemma find_absent: "\<forall>x \<in> set xs. \<not> P x \<Longrightarrow> find P xs = None"
  by (induction xs) simp_all

lemma find_default:
  "\<forall>x \<in> set xs. x \<noteq> DefaultUnknownField \<Longrightarrow>
   find (\<lambda>arm. arm = DefaultUnknownField) (xs @ [DefaultUnknownField]) = Some DefaultUnknownField"
  by (induction xs) simp_all

lemma arms_of_not_default: "DefaultUnknownField \<notin> set (arms_of MakeTag WireTypeForFieldType f)"
  by (simp add: arms_of_def)

lemma select_arm_unknown:
  assumes "Some tag \<notin> arm_label ` set (GenerateBuilderParsingMethods MakeTag WireTypeForFieldType d [])"
  shows "select_arm (GenerateBuilderParsingMethods MakeTag WireTypeForFieldType d []) tag =
           Some DefaultUnknownField"
proof -
  let ?arms = "GenerateBuilderParsingMethods MakeTag WireTypeForFieldType d []"
  let ?cases = "CaseDone 0 # concat (map (arms_of MakeTag WireTypeForFieldType) (SortFieldsByNumber d))"
  have arms: "?arms = ?cases @ [DefaultUnknownField]"
    by (simp add: parsing_methods_eq)
  from assms have "\<forall>arm \<in> set ?arms. \<not> arm_label arm = Some tag"
    by (metis imageI)
  then have none: "find (\<lambda>arm. arm_label arm = Some tag) ?arms = None"
    by (rule find_absent)
  have "\<forall>x \<in> set ?cases. x \<noteq> DefaultUnknownField"
    using arms_of_not_default by auto
  then have "find (\<lambda>arm. arm = DefaultUnknownField) ?arms = Some DefaultUnknownField"
    unfolding arms by (rule find_default)
  with none show ?thesis by (simp add: select_arm_def)
qed

lemma is_initialized_eq:
  "GenerateIsInitialized GetJavaType HasRequiredFields IsMapEntry d [] =
     map HasField (filter is_required (field_list d)) @
     concat (map (init_checks_of GetJavaType HasRequiredFields IsMapEntry) (field_list d)) @
     (if extension_range_count d > 0 then [ExtensionsAreInitialized] else [])"
proof -
  have step: "(\<lambda>field p.
                       if GetJavaType field = JAVATYPE_MESSAGE \<and>
                          HasRequiredFields (message_type field)
                       then (case label field of
                               LABEL_REQUIRED \<Rightarrow> p @ [RequiredMessageInitialized field]
                             | LABEL_OPTIONAL \<Rightarrow> p @ [OptionalMessageInitialized field]
                             | LABEL_REPEATED \<Rightarrow>
                                 if IsMapEntry (message_type field)
                                 then p @ [MapValuesInitialized field]
                                 else p @ [RepeatedMessagesInitialized field])
                       else p) =
      (\<lambda>field p. p @ init_checks_of GetJavaType HasRequiredFields IsMapEntry field)"
    by (intro ext) (simp add: init_checks_of_def split: Label.splits)
  show ?thesis
    unfolding GenerateIsInitialized_def step Let_def
    by (simp add: fold_append_if fold_append_lines)
qed

lemma init_checks_of_field:
  "c \<in> set (init_checks_of GetJavaType HasRequiredFields IsMapEntry g) \<Longrightarrow>
   c \<in> recursion_checks g \<and> HasRequiredFields (message_type g) \<and> GetJavaType g = JAVATYPE_MESSAGE"
  by (auto simp: init_checks_of_def recursion_checks_def split: if_splits Label.splits)

section \<open>The claims about java/message_builder.cc\<close>

text \<open>
  Claim C3. In the \<open>switch\<close> printed for a message whose fields are distinct, the arms
  that parse a packable field are exactly two, in this order: one whose tag is made from the
  field's number and the wire type of its declared type, running the per-element parsing
  code, and one whose tag is made from the number and \<open>WIRETYPE_LENGTH_DELIMITED\<close>, running
  the parsing code for the packed form. The field is arbitrary, so this holds whatever its
  \<open>options().packed()\<close> is.
\<close>

theorem packable_field_two_dispatch_entries:
  assumes "f \<in> set (field_list d)" and "is_packable f" and "distinct (field_list d)"
  shows "entries_for f (GenerateBuilderParsingMethods MakeTag WireTypeForFieldType d []) =
           [CaseField (MakeTag (number f) (WireTypeForFieldType (type f))) (BuilderParsingCode f),
            CaseField (MakeTag (number f) WIRETYPE_LENGTH_DELIMITED)
              (BuilderParsingCodeFromPacked f)]"
proof -
  have app: "entries_for f (a @ b) = entries_for f a @ entries_for f b" for a b
    by (simp add: entries_for_def)
  have d: "distinct (SortFieldsByNumber d)" and s: "f \<in> set (SortFieldsByNumber d)"
    using assms by (simp_all add: SortFieldsByNumber_def)
  have "entries_for f (GenerateBuilderParsingMethods MakeTag WireTypeForFieldType d []) =
      entries_for f [CaseDone 0] @
      entries_for f (concat (map (arms_of MakeTag WireTypeForFieldType) (SortFieldsByNumber d))) @
      entries_for f [DefaultUnknownField]"
    by (simp add: parsing_methods_eq app del: append.simps) (simp add: entries_for_def)
  also have "\<dots> = arms_of MakeTag WireTypeForFieldType f"
    by (simp add: entries_for_concat [OF d] s) (simp add: entries_for_def)
  finally show ?thesis using assms(2) by (simp add: arms_of_def)
qed

theorem packable_field_two_dispatch_entries_witness:
  "entries_for sample_tags
     (GenerateBuilderParsingMethods sample_MakeTag sample_WireTypeForFieldType sample_message []) =
     [CaseField 24 (BuilderParsingCode sample_tags),
      CaseField 26 (BuilderParsingCodeFromPacked sample_tags)]"
  using packable_field_two_dispatch_entries [of sample_tags sample_message sample_MakeTag sample_WireTypeForFieldType]
  by simp

text \<open>
  Claim C4. In a run of the printed loop that reads a tag: when the tag is 0 the loop ends
  at once and the method returns normally; when no case label of the \<open>switch\<close> is the
  tag, the \<open>default\<close> arm hands it to \<open>parseUnknownField\<close>, and when that returns false
  the loop ends and the method returns normally, while it goes round again when that returns
  true.
\<close>

theorem decode_loop_end_and_unknown_tags:
  assumes "readTag rt s = Inr (tag, s1)"
  shows "(tag = 0 \<longrightarrow>
            run_parse_loop (Suc fuel) rt
              (GenerateBuilderParsingMethods MakeTag WireTypeForFieldType d []) s = Some (Inr s1) \<and>
            run_mergeFrom_input (Suc fuel) rt
              (GenerateBuilderParsingMethods MakeTag WireTypeForFieldType d []) False s =
              Some (Inr (parse_onChanged rt s1))) \<and>
         (Some tag \<notin> arm_label ` set (GenerateBuilderParsingMethods MakeTag WireTypeForFieldType d []) \<longrightarrow>
            run_arm rt (select_arm (GenerateBuilderParsingMethods MakeTag WireTypeForFieldType d []) tag)
              tag s1 =
              (case parseUnknownField rt tag s1 of
                 Inl thrown \<Rightarrow> Inl thrown
               | Inr (continue, s2) \<Rightarrow> Inr (\<not> continue, s2)) \<and>
            (\<forall>s2. parseUnknownField rt tag s1 = Inr (False, s2) \<longrightarrow>
               run_parse_loop (Suc fuel) rt
                 (GenerateBuilderParsingMethods MakeTag WireTypeForFieldType d []) s = Some (Inr s2) \<and>
               run_mergeFrom_input (Suc fuel) rt
                 (GenerateBuilderParsingMethods MakeTag WireTypeForFieldType d []) False s =
                 Some (Inr (parse_onChanged rt s2))) \<and>
            (\<forall>s2. parseUnknownField rt tag s1 = Inr (True, s2) \<longrightarrow>
               run_parse_loop (Suc fuel) rt
                 (GenerateBuilderParsingMethods MakeTag WireTypeForFieldType d []) s =
               run_parse_loop fuel rt
                 (GenerateBuilderParsingMethods MakeTag WireTypeForFieldType d []) s2))"
proof -
  let ?arms = "GenerateBuilderParsingMethods MakeTag WireTypeForFieldType d []"
  have zero: "run_parse_loop (Suc fuel) rt ?arms s = Some (Inr s1)" if "tag = 0"
    using assms that by (simp add: select_arm_zero)
  have unknown:
    "run_arm rt (select_arm ?arms tag) tag s1 =
       (case parseUnknownField rt tag s1 of
          Inl thrown \<Rightarrow> Inl thrown
        | Inr (continue, s2) \<Rightarrow> Inr (\<not> continue, s2))"
    if "Some tag \<notin> arm_label ` set ?arms"
    by (simp add: select_arm_unknown [OF that])
  have stop: "run_parse_loop (Suc fuel) rt ?arms s = Some (Inr s2)"
    if "Some tag \<notin> arm_label ` set ?arms" "parseUnknownField rt tag s1 = Inr (False, s2)" for s2
    using assms that(2) by (simp add: unknown [OF that(1)])
  have continue: "run_parse_loop (Suc fuel) rt ?arms s = run_parse_loop fuel rt ?arms s2"
    if "Some tag \<notin> arm_label ` set ?arms" "parseUnknownField rt tag s1 = Inr (True, s2)" for s2
    using assms that(2) by (simp add: unknown [OF that(1)])
  have returns: "run_mergeFrom_input (Suc fuel) rt ?arms False s = Some (Inr (parse_onChanged rt s'))"
    if "run_parse_loop (Suc fuel) rt ?arms s = Some (Inr s')" for s'
    using that by (simp add: run_mergeFrom_input_def)
  from zero unknown stop continue returns show ?thesis by blast
qed

theorem decode_loop_end_and_unknown_tags_witness:
  "run_parse_loop (Suc 0) sample_input
     (GenerateBuilderParsingMethods sample_MakeTag sample_WireTypeForFieldType sample_message [])
     [] = Some (Inr []) \<and>
   Some 12 \<notin> arm_label `
     set (GenerateBuilderParsingMethods sample_MakeTag sample_WireTypeForFieldType sample_message []) \<and>
   run_parse_loop (Suc 0) sample_input
     (GenerateBuilderParsingMethods sample_MakeTag sample_WireTypeForFieldType sample_message [])
     [12, 8] = Some (Inr [8]) \<and>
   run_mergeFrom_input (Suc 0) sample_input
     (GenerateBuilderParsingMethods sample_MakeTag sample_WireTypeForFieldType sample_message [])
     False [12, 8] = Some (Inr [8])"
proof -
  let ?arms = "GenerateBuilderParsingMethods sample_MakeTag sample_WireTypeForFieldType sample_message []"
  have r0: "readTag sample_input [] = Inr (0, [])" by simp
  have r1: "readTag sample_input [12, 8] = Inr (12, [8])" by simp
  have u: "Some 12 \<notin> arm_label ` set ?arms"
    by (simp add: parsing_methods_eq SortFieldsByNumber_def arms_of_def)
  have h: "parseUnknownField sample_input 12 [8] = Inr (False, [8])" by simp
  from decode_loop_end_and_unknown_tags
    [OF r0, of 0 sample_MakeTag sample_WireTypeForFieldType sample_message]
  have a: "run_parse_loop (Suc 0) sample_input ?arms [] = Some (Inr [])" by blast
  from decode_loop_end_and_unknown_tags
    [OF r1, of 0 sample_MakeTag sample_WireTypeForFieldType sample_message] u h
  have b: "run_parse_loop (Suc 0) sample_input ?arms [12, 8] = Some (Inr [8]) \<and>
    run_mergeFrom_input (Suc 0) sample_input ?arms False [12, 8] = Some (Inr [8])"
    by simp
  from a u b show ?thesis by blast
qed




text \<open>
  Claim C6. When the merge method is printed, its statements after the fast path are, in this
  order: the merging code of every field that is not a member of a real oneof, in
  declaration order; one \<open>switch\<close> for every oneof of \<open>oneofs_\<close>; the call of
  \<open>mergeExtensionFields\<close> when the message has extension ranges; and
  \<open>mergeUnknownFields\<close>, after which only \<open>onChanged()\<close> and \<open>return this\<close> follow.
\<close>

theorem merge_sequence_order:
  assumes "HasGeneratedMethods (descriptor g)"
  shows "GenerateCommonBuilderMethods_mergeFrom HasGeneratedMethods IsRealOneof g [] =
           [ReturnThisIfDefaultInstance] @
           map MergingCode (filter (\<lambda>f. \<not> IsRealOneof f) (field_list (descriptor g))) @
           map (\<lambda>oneof. SwitchOneofCase oneof (oneof_fields oneof)) (oneofs g) @
           (if extension_range_count (descriptor g) > 0 then [MergeExtensionFields] else []) @
           [MergeUnknownFields, OnChanged, ReturnThis]"
  using assms
  by (simp add: GenerateCommonBuilderMethods_mergeFrom_def Let_def fold_append_if
      fold_append_line oneof_cases_eq)

theorem merge_sequence_order_witness:
  "GenerateCommonBuilderMethods_mergeFrom (\<lambda>d. True) (\<lambda>f. field_name f = ''child'')
     \<lparr>descriptor = Descriptor ''M'' [sample_tags, sample_id, sample_child] 0 1 [],
      oneofs = [\<lparr>oneof_name = ''choice'', oneof_fields = [sample_child]\<rparr>]\<rparr> [] =
     [ReturnThisIfDefaultInstance, MergingCode sample_tags, MergingCode sample_id,
      SwitchOneofCase \<lparr>oneof_name = ''choice'', oneof_fields = [sample_child]\<rparr> [sample_child],
      MergeExtensionFields, MergeUnknownFields, OnChanged, ReturnThis]"
  using merge_sequence_order [of "\<lambda>d. True"
      "\<lparr>descriptor = Descriptor ''M'' [sample_tags, sample_id, sample_child] 0 1 [],
        oneofs = [\<lparr>oneof_name = ''choice'', oneof_fields = [sample_child]\<rparr>]\<rparr>"
      "\<lambda>f. field_name f = ''child''"]
  by simp

text \<open>
  Claim C7. When no field generator asks for a negative number of bits and the totals are in
  the range of the 32-bit \<open>int\<close> that holds them, the bit-field words
  that \<open>Generate\<close> declares for the builder are numbered \<open>0, 1, ...\<close> in order and there
  are \<open>ceil(total builder bits / 32)\<close> of them; in \<open>buildPartial\<close> the \<open>from_\<close> words are
  numbered the same way from the builder bits alone, and the \<open>to_\<close> words are numbered
  \<open>0, 1, ...\<close> up to \<open>ceil(total message bits / 32)\<close> from the message bits alone.
\<close>

theorem bit_field_word_counts:
  assumes "\<forall>f \<in> set (field_list d). 0 \<le> GetNumBitsForBuilder f \<and> 0 \<le> GetNumBitsForMessage f"
    and "(\<Sum>f\<leftarrow>field_list d. GetNumBitsForBuilder f) + 31 < 2 ^ 31"
    and "(\<Sum>f\<leftarrow>field_list d. GetNumBitsForMessage f) + 31 < 2 ^ 31"
  shows "Generate_bit_fields GetNumBitsForBuilder d [] =
           map BuilderBitField
             [0..\<lceil>real_of_int (\<Sum>f\<leftarrow>field_list d. GetNumBitsForBuilder f) / 32\<rceil> - 1] \<and>
         GenerateCommonBuilderMethods_bit_fields GetNumBitsForBuilder GetNumBitsForMessage d [] =
           map FromBitField
             [0..\<lceil>real_of_int (\<Sum>f\<leftarrow>field_list d. GetNumBitsForBuilder f) / 32\<rceil> - 1] @
           map ToBitField
             [0..\<lceil>real_of_int (\<Sum>f\<leftarrow>field_list d. GetNumBitsForMessage f) / 32\<rceil> - 1]"
proof -
  have b: "0 \<le> (\<Sum>f\<leftarrow>field_list d. GetNumBitsForBuilder f)"
    using assms(1) by (intro sum_list_nonneg_bits) simp
  have m: "0 \<le> (\<Sum>f\<leftarrow>field_list d. GetNumBitsForMessage f)"
    using assms(1) by (intro sum_list_nonneg_bits) simp
  show ?thesis
    by (simp add: Generate_bit_fields_def GenerateCommonBuilderMethods_bit_fields_def Let_def
        fold_total fold_totals fold_append_line words_ceiling [OF b] words_ceiling [OF m])
qed

theorem bit_field_word_counts_witness:
  "Generate_bit_fields (\<lambda>f. 1) sample_message [] = [BuilderBitField 0] \<and>
   GenerateCommonBuilderMethods_bit_fields (\<lambda>f. 1) (\<lambda>f. if label f = LABEL_REPEATED then 0 else 1)
     sample_message [] = [FromBitField 0, ToBitField 0]"
  using bit_field_word_counts [of sample_message
      "\<lambda>f. 1" "\<lambda>f. if label f = LABEL_REPEATED then 0 else 1"]
  by (simp add: ceiling_eq_iff [of "1 / 16" 1, THEN iffD2])

text \<open>
  Claim C8 as stated fails for a message with extension ranges: a message with no field at
  all, and so with no required field anywhere, still gets the check of its extensions.
\<close>

theorem is_initialized_extension_ranges_counterexample:
  "field_list (Descriptor ''M'' [] 0 1 []) = [] \<and>
   GenerateIsInitialized (\<lambda>f. JAVATYPE_INT) (\<lambda>t. False) (\<lambda>t. False) (Descriptor ''M'' [] 0 1 []) [] =
     [ExtensionsAreInitialized] \<and>
   GenerateIsInitialized (\<lambda>f. JAVATYPE_INT) (\<lambda>t. False) (\<lambda>t. False) (Descriptor ''M'' [] 0 1 []) [] \<noteq> []"
  by (simp add: GenerateIsInitialized_def)

text \<open>
  Claim C8, as amended. No check that descends into the message of a field is printed for a
  field whose message type \<open>HasRequiredFields\<close> clears. A message with no required field,
  whose message-typed fields all have types that \<open>HasRequiredFields\<close> clears, and with no
  extension ranges gets no check at all.
\<close>

theorem is_initialized_pruning:
  "(\<not> HasRequiredFields (message_type f) \<longrightarrow>
      recursion_checks f \<inter>
        set (GenerateIsInitialized GetJavaType HasRequiredFields IsMapEntry d []) = {}) \<and>
   ((\<forall>g \<in> set (field_list d).
        \<not> is_required g \<and>
        (GetJavaType g = JAVATYPE_MESSAGE \<longrightarrow> \<not> HasRequiredFields (message_type g))) \<and>
    extension_range_count d = 0 \<longrightarrow>
      GenerateIsInitialized GetJavaType HasRequiredFields IsMapEntry d [] = [])"
proof (intro conjI impI)
  assume clear: "\<not> HasRequiredFields (message_type f)"
  show "recursion_checks f \<inter>
        set (GenerateIsInitialized GetJavaType HasRequiredFields IsMapEntry d []) = {}"
  proof (rule ccontr)
    assume "recursion_checks f \<inter>
        set (GenerateIsInitialized GetJavaType HasRequiredFields IsMapEntry d []) \<noteq> {}"
    then obtain c where c: "c \<in> recursion_checks f"
      and "c \<in> set (GenerateIsInitialized GetJavaType HasRequiredFields IsMapEntry d [])" by blast
    with c obtain g where "c \<in> set (init_checks_of GetJavaType HasRequiredFields IsMapEntry g)"
      by (auto simp: is_initialized_eq recursion_checks_def split: if_splits)
    from init_checks_of_field [OF this] c have "g = f" "HasRequiredFields (message_type g)"
      by (auto simp: recursion_checks_def)
    with clear show False by simp
  qed
next
  assume a: "(\<forall>g \<in> set (field_list d).
        \<not> is_required g \<and>
        (GetJavaType g = JAVATYPE_MESSAGE \<longrightarrow> \<not> HasRequiredFields (message_type g))) \<and>
    extension_range_count d = 0"
  then have "filter is_required (field_list d) = []"
    by (simp add: filter_empty_conv)
  moreover from a have "\<forall>g \<in> set (field_list d).
      init_checks_of GetJavaType HasRequiredFields IsMapEntry g = []"
    by (auto simp: init_checks_of_def)
  ultimately show "GenerateIsInitialized GetJavaType HasRequiredFields IsMapEntry d [] = []"
    using a by (simp add: is_initialized_eq)
qed

theorem is_initialized_pruning_witness:
  "recursion_checks sample_child \<inter>
     set (GenerateIsInitialized sample_GetJavaType (\<lambda>t. False) (\<lambda>t. False)
            (Descriptor ''M'' [sample_tags, sample_child] 0 0 []) []) = {} \<and>
   GenerateIsInitialized sample_GetJavaType (\<lambda>t. False) (\<lambda>t. False)
     (Descriptor ''M'' [sample_tags, sample_child] 0 0 []) [] = []"
  using is_initialized_pruning [of "\<lambda>t. False" sample_child sample_GetJavaType "\<lambda>t. False"
      "Descriptor ''M'' [sample_tags, sample_child] 0 0 []"]
  by (simp add: is_required_def)


end
